theory Spec2Isabelle
  imports Main
begin

section \<open>The node cache of libkbfs (nodeCacheStandard)\<close>

text \<open>
  The cache lives in the second part of \<^verbatim>\<open>update.go\<close> (package libkbfs). Every operation
  runs under the cache's lock from its first access of the index to its return, so each one
  is modelled as one atomic function from the state before to the state after.
  A Go panic is the left summand of the result, a returned error is a value next to the
  state that the call leaves behind. PathFromNode only reads; its walk up the parent links
  is the one loop that need not end, and is a partial function.
\<close>

subsection \<open>Data\<close>

text \<open>
  Modelled from the spec: the declarations of BlockPointer, blockRef, their methods
  \<^verbatim>\<open>IsValid\<close> and \<^verbatim>\<open>ref\<close>, and FolderBranch are not in the sources. The spec calls the
  block reference a stable, comparable identity key derived from a content pointer, calls a
  pointer valid when it is non-zero and well-formed, and treats the folder-branch as an
  opaque tag. The zero value of each type is the value with every field zero.
\<close>

record blockRef =
  ID :: nat
  RefNonce :: nat

record BlockPointer =
  bpID :: nat
  KeyGen :: int
  DataVer :: int
  bpRefNonce :: nat

record FolderBranch =
  Tlf :: nat
  Branch :: string

definition zeroRef :: blockRef where
  "zeroRef = \<lparr>ID = 0, RefNonce = 0\<rparr>"

definition zeroPtr :: BlockPointer where
  "zeroPtr = \<lparr>bpID = 0, KeyGen = 0, DataVer = 0, bpRefNonce = 0\<rparr>"

definition zeroFolderBranch :: FolderBranch where
  "zeroFolderBranch = \<lparr>Tlf = 0, Branch = []\<rparr>"

definition ref :: "BlockPointer \<Rightarrow> blockRef" where
  "ref p = \<lparr>ID = bpID p, RefNonce = bpRefNonce p\<rparr>"

definition ptrIsValid :: "BlockPointer \<Rightarrow> bool" where
  "ptrIsValid p \<longleftrightarrow> bpID p \<noteq> 0"

definition refIsValid :: "blockRef \<Rightarrow> bool" where
  "refIsValid r \<longleftrightarrow> ID r \<noteq> 0"

text \<open>
  A pathNode is a pointer with a name; a path is a folder-branch tag with the sequence of
  path nodes from the root to the target.
\<close>

record pathNode =
  BlockPointer :: BlockPointer
  Name :: string

record path =
  FolderBranch :: FolderBranch
  path :: "pathNode list"

definition zeroPath :: path where
  "zeroPath = \<lparr>FolderBranch = zeroFolderBranch, path = []\<rparr>"

text \<open>
  Node cores are heap objects that the index, the handles and the parent links all point
  to, and that the operations mutate in place. The store of cores is a list, a pointer to a
  core is its position in the list, and allocation appends. A handle
  (\<^verbatim>\<open>*nodeStandard\<close>) holds only the pointer to its core, which is never reassigned, so a
  handle is modelled by that pointer; \<open>otherNode\<close> stands for a value of the Node interface
  of any other dynamic type, and the nil interface is \<open>None\<close>. \<open>nilNodeStandard\<close> is
  the interface value that holds a nil \<^verbatim>\<open>*nodeStandard\<close>: it is not the nil interface, and
  the type assertion to \<^verbatim>\<open>*nodeStandard\<close> succeeds on it.

  Go keeps every core alive that something points to, so a pointer always leads to a core.
  In the list a position past the end leads nowhere; the statements below that read or
  write the core of an entry say that its position is within the list.

  The parent link of a core is a \<^verbatim>\<open>*nodeStandard\<close>, again the pointer to the parent's core.
  The core's back pointer to its cache is never read by the operations and is left out.
  The count of an entry is an \<^verbatim>\<open>int\<close>; it goes up by one for each handle made, and the
  handles that exist at one time are far fewer than the range of \<^verbatim>\<open>int\<close>, so the count
  is modelled without wrap-around.
\<close>

type_synonym addr = nat

record nodeCore =
  pathNode :: pathNode
  parent :: "addr option"
  cachedPath :: path

datatype Node = nodeStandard addr | nilNodeStandard | otherNode

record nodeCacheEntry =
  core :: addr
  refCount :: int

record nodeCacheStandard =
  folderBranch :: FolderBranch
  nodes :: "blockRef \<rightharpoonup> nodeCacheEntry"
  heap :: "nodeCore list"

datatype panic =
    InvalidBlockRefError blockRef
  | InvalidOldRef blockRef BlockPointer
  | InvalidNewPtr BlockPointer blockRef
  | NilDereference

datatype error =
    EmptyNameError blockRef
  | ParentNodeNotFoundError blockRef

text \<open>A new cache has an empty index; \<open>h\<close> is the store of cores at the time it is made.\<close>

definition newNodeCacheStandard :: "FolderBranch \<Rightarrow> nodeCore list \<Rightarrow> nodeCacheStandard" where
  "newNodeCacheStandard fb h = \<lparr>folderBranch = fb, nodes = Map.empty, heap = h\<rparr>"

text \<open>
  Modelled from the spec: \<^verbatim>\<open>newNodeCore\<close> and \<^verbatim>\<open>makeNodeStandard\<close> are not in the sources.
  A new core carries the pointer, the name and the parent it is given and no cached path;
  a handle is made for a core.
\<close>

definition newNodeCore :: "BlockPointer \<Rightarrow> string \<Rightarrow> addr option \<Rightarrow> nodeCore" where
  "newNodeCore p name parentNS =
     \<lparr>pathNode = \<lparr>BlockPointer = p, Name = name\<rparr>, parent = parentNS, cachedPath = zeroPath\<rparr>"

definition makeNodeStandard :: "addr \<Rightarrow> Node" where
  "makeNodeStandard c = nodeStandard c"

subsection \<open>Operations\<close>

definition coreRef :: "nodeCacheStandard \<Rightarrow> addr \<Rightarrow> blockRef" where
  "coreRef ncs c = ref (BlockPointer (pathNode (heap ncs ! c)))"

definition forgetLocked :: "nodeCacheStandard \<Rightarrow> addr \<Rightarrow> nodeCacheStandard" where
  "forgetLocked ncs c =
     (case nodes ncs (coreRef ncs c) of
        None \<Rightarrow> ncs
      | Some entry \<Rightarrow>
          if core entry \<noteq> c then ncs
          else if refCount entry - 1 \<le> 0
               then ncs\<lparr>nodes := (nodes ncs)(coreRef ncs c := None)\<rparr>
               else ncs\<lparr>nodes := (nodes ncs)(coreRef ncs c \<mapsto> entry\<lparr>refCount := refCount entry - 1\<rparr>)\<rparr>)"

definition forget :: "nodeCacheStandard \<Rightarrow> addr \<Rightarrow> nodeCacheStandard" where
  "forget ncs c = forgetLocked ncs c"

text \<open>
  The type assertion \<^verbatim>\<open>node.(*nodeStandard)\<close>: \<open>None\<close> when it fails, otherwise the
  pointer it yields, which is nil for \<open>nilNodeStandard\<close>.
\<close>

definition asNodeStandard :: "Node option \<Rightarrow> addr option option" where
  "asNodeStandard node =
     (case node of
        Some (nodeStandard c) \<Rightarrow> Some (Some c)
      | Some nilNodeStandard \<Rightarrow> Some None
      | _ \<Rightarrow> None)"

text \<open>
  newChildForParentLocked reads \<^verbatim>\<open>nodeStandard.core\<close> right after the assertion, which
  panics on a nil pointer.
\<close>

definition newChildForParentLocked ::
  "nodeCacheStandard \<Rightarrow> Node option \<Rightarrow> panic + (error + addr)" where
  "newChildForParentLocked ncs parentN =
     (case asNodeStandard parentN of
        None \<Rightarrow> Inr (Inl (ParentNodeNotFoundError zeroRef))
      | Some None \<Rightarrow> Inl NilDereference
      | Some (Some c) \<Rightarrow>
          (case nodes ncs (coreRef ncs c) of
             None \<Rightarrow> Inr (Inl (ParentNodeNotFoundError (coreRef ncs c)))
           | Some entry \<Rightarrow>
               if c \<noteq> core entry then Inr (Inl (ParentNodeNotFoundError (coreRef ncs c)))
               else Inr (Inr c)))"

text \<open>
  \<^verbatim>\<open>makeNodeStandardForEntry\<close> increments the count of the entry it is given and makes a
  handle for its core; the entry is the one stored in the index, so its callers below write
  the incremented entry back under the key they read it from.
\<close>

definition makeNodeStandardForEntry :: "nodeCacheEntry \<Rightarrow> nodeCacheEntry \<times> Node" where
  "makeNodeStandardForEntry entry =
     (entry\<lparr>refCount := refCount entry + 1\<rparr>, makeNodeStandard (core entry))"

text \<open>
  The tail of GetOrCreate after the lookup, in two parts: the allocation and insertion of
  the new entry (lines 216 to 220), and before it the validation of the parent (lines 207
  to 214).
\<close>

definition GetOrCreate_insert ::
  "nodeCacheStandard \<Rightarrow> BlockPointer \<Rightarrow> string \<Rightarrow> addr option
     \<Rightarrow> (error + Node) \<times> nodeCacheStandard" where
  "GetOrCreate_insert ncs p name parentNS =
     (let a = length (heap ncs);
          (entry, n) = makeNodeStandardForEntry \<lparr>core = a, refCount = 0\<rparr>
      in (Inr n, ncs\<lparr>heap := heap ncs @ [newNodeCore p name parentNS],
                      nodes := (nodes ncs)(ref p \<mapsto> entry)\<rparr>))"

definition GetOrCreate_new ::
  "nodeCacheStandard \<Rightarrow> BlockPointer \<Rightarrow> string \<Rightarrow> Node option
     \<Rightarrow> panic + ((error + Node) \<times> nodeCacheStandard)" where
  "GetOrCreate_new ncs p name parentN =
     (case parentN of
        None \<Rightarrow> Inr (GetOrCreate_insert ncs p name None)
      | Some n \<Rightarrow>
          (case newChildForParentLocked ncs parentN of
             Inl pnc \<Rightarrow> Inl pnc
           | Inr (Inl err) \<Rightarrow> Inr (Inl err, ncs)
           | Inr (Inr c) \<Rightarrow> Inr (GetOrCreate_insert ncs p name (Some c))))"

definition GetOrCreate ::
  "nodeCacheStandard \<Rightarrow> BlockPointer \<Rightarrow> string \<Rightarrow> Node option
     \<Rightarrow> panic + ((error + Node) \<times> nodeCacheStandard)" where
  "GetOrCreate ncs p name parentN =
     (if \<not> ptrIsValid p then Inl (InvalidBlockRefError (ref p))
      else if name = [] then Inr (Inl (EmptyNameError (ref p)), ncs)
      else (case nodes ncs (ref p) of
              Some entry \<Rightarrow>
                if parentN \<noteq> None \<and> parent (heap ncs ! core entry) = None
                then GetOrCreate_new (ncs\<lparr>nodes := (nodes ncs)(ref p := None)\<rparr>) p name parentN
                else (let (entry', n) = makeNodeStandardForEntry entry
                      in Inr (Inr n, ncs\<lparr>nodes := (nodes ncs)(ref p \<mapsto> entry')\<rparr>))
            | None \<Rightarrow> GetOrCreate_new ncs p name parentN))"

definition Get ::
  "nodeCacheStandard \<Rightarrow> blockRef \<Rightarrow> panic + (Node option \<times> nodeCacheStandard)" where
  "Get ncs r =
     (if r = zeroRef then Inr (None, ncs)
      else if \<not> refIsValid r then Inl (InvalidBlockRefError r)
      else (case nodes ncs r of
              None \<Rightarrow> Inr (None, ncs)
            | Some entry \<Rightarrow>
                (let (entry', n) = makeNodeStandardForEntry entry
                 in Inr (Some n, ncs\<lparr>nodes := (nodes ncs)(r \<mapsto> entry')\<rparr>))))"

definition UpdatePointer ::
  "nodeCacheStandard \<Rightarrow> blockRef \<Rightarrow> BlockPointer \<Rightarrow> panic + nodeCacheStandard" where
  "UpdatePointer ncs oldRef newPtr =
     (if oldRef = zeroRef \<and> newPtr = zeroPtr then Inr ncs
      else if \<not> refIsValid oldRef then Inl (InvalidOldRef oldRef newPtr)
      else if \<not> ptrIsValid newPtr then Inl (InvalidNewPtr newPtr oldRef)
      else (case nodes ncs oldRef of
              None \<Rightarrow> Inr ncs
            | Some entry \<Rightarrow>
                if path (cachedPath (heap ncs ! core entry)) \<noteq> [] then Inr ncs
                else Inr (ncs\<lparr>heap := (heap ncs)[core entry :=
                                   (heap ncs ! core entry)\<lparr>pathNode :=
                                      (pathNode (heap ncs ! core entry))\<lparr>BlockPointer := newPtr\<rparr>\<rparr>],
                               nodes := ((nodes ncs)(oldRef := None))(ref newPtr \<mapsto> entry)\<rparr>)))"

definition Move ::
  "nodeCacheStandard \<Rightarrow> blockRef \<Rightarrow> Node option \<Rightarrow> string
     \<Rightarrow> panic + (error option \<times> nodeCacheStandard)" where
  "Move ncs r newParent newName =
     (if r = zeroRef then Inr (None, ncs)
      else if \<not> refIsValid r then Inl (InvalidBlockRefError r)
      else if newName = [] then Inr (Some (EmptyNameError r), ncs)
      else (case nodes ncs r of
              None \<Rightarrow> Inr (None, ncs)
            | Some entry \<Rightarrow>
                (case newChildForParentLocked ncs newParent of
                   Inl pnc \<Rightarrow> Inl pnc
                 | Inr (Inl err) \<Rightarrow> Inr (Some err, ncs)
                 | Inr (Inr newParentNS) \<Rightarrow>
                     Inr (None, ncs\<lparr>heap := (heap ncs)[core entry :=
                                      (heap ncs ! core entry)\<lparr>parent := Some newParentNS,
                                         pathNode := (pathNode (heap ncs ! core entry))\<lparr>Name := newName\<rparr>\<rparr>]\<rparr>))))"

definition Unlink ::
  "nodeCacheStandard \<Rightarrow> blockRef \<Rightarrow> path \<Rightarrow> panic + nodeCacheStandard" where
  "Unlink ncs r oldPath =
     (if r = zeroRef then Inr ncs
      else if \<not> refIsValid r then Inl (InvalidBlockRefError r)
      else (case nodes ncs r of
              None \<Rightarrow> Inr ncs
            | Some entry \<Rightarrow>
                Inr (ncs\<lparr>heap := (heap ncs)[core entry :=
                            (heap ncs ! core entry)\<lparr>cachedPath := oldPath, parent := None,
                               pathNode := (pathNode (heap ncs ! core entry))\<lparr>Name := []\<rparr>\<rparr>]\<rparr>)))"

subsection \<open>Path reconstruction\<close>

text \<open>
  The inner loop of PathFromNode appends the cached path to \<open>p\<close> from its last element
  down to its first; the counter is the number of elements still to append.
\<close>

fun appendBackwards :: "'a list \<Rightarrow> 'a list \<Rightarrow> nat \<Rightarrow> 'a list" where
  "appendBackwards p c 0 = p"
| "appendBackwards p c (Suc i) = appendBackwards (p @ [c ! i]) c i"

text \<open>
  The walk up the parent links. Nothing in the code bounds it: a parent link that leads
  back to the core it came from keeps the loop running, which is the value \<open>None\<close> here.
  \<open>Inl\<close> is the return from inside the loop, \<open>Inr\<close> the sequence the loop leaves behind.
\<close>

partial_function (option) walk ::
  "nodeCore list \<Rightarrow> addr option \<Rightarrow> pathNode list \<Rightarrow> (path + pathNode list) option" where
  "walk h ns p =
     (case ns of
        None \<Rightarrow> Some (Inr p)
      | Some a \<Rightarrow>
          if parent (h ! a) = None \<and> path (cachedPath (h ! a)) \<noteq> []
          then (if p = [] then Some (Inl (cachedPath (h ! a)))
                else Some (Inr (appendBackwards p (path (cachedPath (h ! a)))
                                  (length (path (cachedPath (h ! a)))))))
          else walk h (parent (h ! a)) (p @ [pathNode (h ! a)]))"

text \<open>
  The reversal in place: \<open>i\<close> runs from \<open>len / 2 - 1\<close> down to \<open>0\<close> and swaps the
  elements at \<open>i\<close> and \<open>len - 1 - i\<close>; the counter is \<open>i + 1\<close>.
\<close>

fun reverseLoop :: "nat \<Rightarrow> 'a list \<Rightarrow> 'a list" where
  "reverseLoop 0 xs = xs"
| "reverseLoop (Suc i) xs =
     reverseLoop i (xs[i := xs ! (length xs - 1 - i), length xs - 1 - i := xs ! i])"

definition PathFromNode :: "nodeCacheStandard \<Rightarrow> Node option \<Rightarrow> path option" where
  "PathFromNode ncs node =
     (case asNodeStandard node of
        None \<Rightarrow> Some zeroPath
      | Some ns \<Rightarrow>
          (case walk (heap ncs) ns [] of
             None \<Rightarrow> None
           | Some (Inl cp) \<Rightarrow> Some cp
           | Some (Inr p) \<Rightarrow>
               Some \<lparr>FolderBranch = folderBranch ncs, path = reverseLoop (length p div 2) p\<rparr>))"

subsection \<open>Sequences of operations\<close>

text \<open>
  A call of one of the operations, for statements about what holds after any sequence of
  calls. \<open>applyOp\<close> gives the handle the call hands out, if any, and the state it leaves;
  it is \<open>None\<close> when the call panics.
\<close>

datatype op =
    OpGetOrCreate BlockPointer string "Node option"
  | OpGet blockRef
  | OpForget addr
  | OpUpdatePointer blockRef BlockPointer
  | OpMove blockRef "Node option" string
  | OpUnlink blockRef path

fun applyOp :: "nodeCacheStandard \<Rightarrow> op \<Rightarrow> (Node option \<times> nodeCacheStandard) option" where
  "applyOp ncs (OpGetOrCreate p name parentN) =
     (case GetOrCreate ncs p name parentN of
        Inl pnc \<Rightarrow> None
      | Inr (Inl err, ncs') \<Rightarrow> Some (None, ncs')
      | Inr (Inr n, ncs') \<Rightarrow> Some (Some n, ncs'))"
| "applyOp ncs (OpGet r) =
     (case Get ncs r of Inl pnc \<Rightarrow> None | Inr (n, ncs') \<Rightarrow> Some (n, ncs'))"
| "applyOp ncs (OpForget c) = Some (None, forget ncs c)"
| "applyOp ncs (OpUpdatePointer oldRef newPtr) =
     (case UpdatePointer ncs oldRef newPtr of Inl pnc \<Rightarrow> None | Inr ncs' \<Rightarrow> Some (None, ncs'))"
| "applyOp ncs (OpMove r newParent newName) =
     (case Move ncs r newParent newName of Inl pnc \<Rightarrow> None | Inr (err, ncs') \<Rightarrow> Some (None, ncs'))"
| "applyOp ncs (OpUnlink r oldPath) =
     (case Unlink ncs r oldPath of Inl pnc \<Rightarrow> None | Inr ncs' \<Rightarrow> Some (None, ncs'))"

text \<open>
  The core that UpdatePointer, Move and Unlink look up and may write to; the other operations
  write to no existing core.
\<close>

fun opTarget :: "nodeCacheStandard \<Rightarrow> op \<Rightarrow> addr option" where
  "opTarget ncs (OpUpdatePointer oldRef newPtr) = map_option core (nodes ncs oldRef)"
| "opTarget ncs (OpMove r newParent newName) = map_option core (nodes ncs r)"
| "opTarget ncs (OpUnlink r oldPath) = map_option core (nodes ncs r)"
| "opTarget ncs _ = None"

text \<open>A run of operations none of which looks up the core \<open>a\<close> to write to it.\<close>

fun runOthers :: "addr \<Rightarrow> nodeCacheStandard \<Rightarrow> op list \<Rightarrow> nodeCacheStandard option" where
  "runOthers a ncs [] = Some ncs"
| "runOthers a ncs (x # xs) =
     (if opTarget ncs x = Some a then None
      else (case applyOp ncs x of
              None \<Rightarrow> None
            | Some (n, ncs') \<Rightarrow> runOthers a ncs' xs))"

text \<open>
  An Unlink that finds the core \<open>a\<close> under its reference and stores an empty path in it;
  and a run of operations none of which does that.
\<close>

fun emptiesSnapshot :: "addr \<Rightarrow> nodeCacheStandard \<Rightarrow> op \<Rightarrow> bool" where
  "emptiesSnapshot a ncs (OpUnlink r oldPath) =
     (map_option core (nodes ncs r) = Some a \<and> path oldPath = [])"
| "emptiesSnapshot a ncs (OpGetOrCreate p name parentN) = False"
| "emptiesSnapshot a ncs (OpGet r) = False"
| "emptiesSnapshot a ncs (OpForget c) = False"
| "emptiesSnapshot a ncs (OpUpdatePointer oldRef newPtr) = False"
| "emptiesSnapshot a ncs (OpMove r newParent newName) = False"

fun runKeepingSnapshot ::
  "addr \<Rightarrow> nodeCacheStandard \<Rightarrow> op list \<Rightarrow> nodeCacheStandard option" where
  "runKeepingSnapshot a ncs [] = Some ncs"
| "runKeepingSnapshot a ncs (x # xs) =
     (if emptiesSnapshot a ncs x then None
      else (case applyOp ncs x of
              None \<Rightarrow> None
            | Some (n, ncs') \<Rightarrow> runKeepingSnapshot a ncs' xs))"

text \<open>
  A run that keeps the list of the handles handed out and not yet released, each by the
  core it points to. A release is the finalizer's call of \<open>forget\<close> with the core of a
  handle that is still outstanding.
\<close>

fun issued :: "Node option \<Rightarrow> addr list" where
  "issued (Some (nodeStandard c)) = [c]"
| "issued (Some nilNodeStandard) = []"
| "issued (Some otherNode) = []"
| "issued None = []"

fun handleStep ::
  "nodeCacheStandard \<times> addr list \<Rightarrow> op \<Rightarrow> (nodeCacheStandard \<times> addr list) option" where
  "handleStep (ncs, hs) (OpForget c) =
     (if c \<in> set hs then Some (forget ncs c, remove1 c hs) else None)"
| "handleStep (ncs, hs) x =
     (case applyOp ncs x of
        None \<Rightarrow> None
      | Some (n, ncs') \<Rightarrow> Some (ncs', issued n @ hs))"

fun runHandles ::
  "nodeCacheStandard \<times> addr list \<Rightarrow> op list \<Rightarrow> (nodeCacheStandard \<times> addr list) option" where
  "runHandles st [] = Some st"
| "runHandles st (x # xs) =
     (case handleStep st x of
        None \<Rightarrow> None
      | Some st' \<Rightarrow> runHandles st' xs)"

text \<open>
  A GetOrCreate that reaches line 200 and finds its condition true: the pointer is valid,
  the name is not empty, a parent is given, and the entry under the identity has a core
  without a parent. Such a call evicts the entry. A plain run has no such call.
\<close>

fun resurrects :: "nodeCacheStandard \<Rightarrow> op \<Rightarrow> bool" where
  "resurrects ncs (OpGetOrCreate p name parentN) =
     (ptrIsValid p \<and> name \<noteq> [] \<and> parentN \<noteq> None \<and>
      (case nodes ncs (ref p) of
         None \<Rightarrow> False
       | Some entry \<Rightarrow> parent (heap ncs ! core entry) = None))"
| "resurrects ncs (OpGet r) = False"
| "resurrects ncs (OpForget c) = False"
| "resurrects ncs (OpUpdatePointer oldRef newPtr) = False"
| "resurrects ncs (OpMove r newParent newName) = False"
| "resurrects ncs (OpUnlink r oldPath) = False"

fun runHandlesPlain ::
  "nodeCacheStandard \<times> addr list \<Rightarrow> op list \<Rightarrow> (nodeCacheStandard \<times> addr list) option" where
  "runHandlesPlain st [] = Some st"
| "runHandlesPlain st (x # xs) =
     (if resurrects (fst st) x then None
      else (case handleStep st x of
              None \<Rightarrow> None
            | Some st' \<Rightarrow> runHandlesPlain st' xs))"

text \<open>The acquisitions of one identity, and the releases.\<close>

fun onIdentity :: "blockRef \<Rightarrow> op \<Rightarrow> bool" where
  "onIdentity i (OpGetOrCreate p name parentN) = (ref p = i)"
| "onIdentity i (OpGet r) = (r = i)"
| "onIdentity i (OpForget c) = True"
| "onIdentity i _ = False"

text \<open>
  What holds throughout a run on the identity \<open>i\<close>: every outstanding handle points to an
  allocated core whose pointer derives \<open>i\<close>, and an entry under \<open>i\<close> counts the outstanding
  handles to its own core and counts at least one.
\<close>

definition countInv :: "blockRef \<Rightarrow> nodeCacheStandard \<times> addr list \<Rightarrow> bool" where
  "countInv i st \<longleftrightarrow>
     (\<forall>c \<in> set (snd st). c < length (heap (fst st)) \<and> coreRef (fst st) c = i) \<and>
     (\<forall>e. nodes (fst st) i = Some e \<longrightarrow>
            refCount e = int (count_list (snd st) (core e)) \<and> 1 \<le> refCount e)"

text \<open>
  In a plain run all outstanding handles point to the core of the entry, and there are none
  when there is no entry.
\<close>

definition plainInv :: "blockRef \<Rightarrow> nodeCacheStandard \<times> addr list \<Rightarrow> bool" where
  "plainInv i st \<longleftrightarrow>
     countInv i st \<and>
     (nodes (fst st) i = None \<longrightarrow> snd st = []) \<and>
     (\<forall>e. nodes (fst st) i = Some e \<longrightarrow> (\<forall>c \<in> set (snd st). c = core e))"

text \<open>
  The condition that newChildForParentLocked tests, as a predicate on the state: the handle
  is a nodeStandard, and the index holds, under the reference of the pointer its core
  carries now, an entry for that very core.
\<close>

definition parentResolves :: "nodeCacheStandard \<Rightarrow> Node option \<Rightarrow> bool" where
  "parentResolves ncs parentN =
     (case parentN of
        Some (nodeStandard c) \<Rightarrow>
          (case nodes ncs (coreRef ncs c) of
             None \<Rightarrow> False
           | Some entry \<Rightarrow> core entry = c)
      | _ \<Rightarrow> False)"

subsection \<open>Example states\<close>

text \<open>
  A cache built by three calls of GetOrCreate: a root named \<open>r\<close>, its child \<open>a\<close> and
  the child \<open>b\<close> of \<open>a\<close>. The states are written out, and shown below to be what the
  calls produce.
\<close>

definition exFB :: FolderBranch where
  "exFB = \<lparr>Tlf = 7, Branch = ''master''\<rparr>"

definition exPtr :: "nat \<Rightarrow> BlockPointer" where
  "exPtr i = \<lparr>bpID = i, KeyGen = 1, DataVer = 1, bpRefNonce = 0\<rparr>"

definition exRef :: "nat \<Rightarrow> blockRef" where
  "exRef i = \<lparr>ID = i, RefNonce = 0\<rparr>"

definition exEmpty :: nodeCacheStandard where
  "exEmpty = newNodeCacheStandard exFB []"

definition exRoot :: nodeCacheStandard where
  "exRoot = \<lparr>folderBranch = exFB,
             nodes = [exRef 1 \<mapsto> \<lparr>core = 0, refCount = 1\<rparr>],
             heap = [newNodeCore (exPtr 1) ''r'' None]\<rparr>"

definition exChain2 :: nodeCacheStandard where
  "exChain2 = \<lparr>folderBranch = exFB,
               nodes = [exRef 1 \<mapsto> \<lparr>core = 0, refCount = 1\<rparr>,
                        exRef 2 \<mapsto> \<lparr>core = 1, refCount = 1\<rparr>],
               heap = [newNodeCore (exPtr 1) ''r'' None,
                       newNodeCore (exPtr 2) ''a'' (Some 0)]\<rparr>"

definition exChain :: nodeCacheStandard where
  "exChain = \<lparr>folderBranch = exFB,
              nodes = [exRef 1 \<mapsto> \<lparr>core = 0, refCount = 1\<rparr>,
                       exRef 2 \<mapsto> \<lparr>core = 1, refCount = 1\<rparr>,
                       exRef 3 \<mapsto> \<lparr>core = 2, refCount = 1\<rparr>],
              heap = [newNodeCore (exPtr 1) ''r'' None,
                      newNodeCore (exPtr 2) ''a'' (Some 0),
                      newNodeCore (exPtr 3) ''b'' (Some 1)]\<rparr>"

definition exSnapshot :: path where
  "exSnapshot = \<lparr>FolderBranch = exFB,
                 path = [\<lparr>BlockPointer = exPtr 1, Name = ''r''\<rparr>,
                         \<lparr>BlockPointer = exPtr 2, Name = ''a''\<rparr>,
                         \<lparr>BlockPointer = exPtr 3, Name = ''b''\<rparr>]\<rparr>"

text \<open>The chain after \<open>b\<close> has been unlinked with that snapshot, and with an empty one.\<close>

definition exUnlinked :: nodeCacheStandard where
  "exUnlinked = exChain\<lparr>heap :=
     [newNodeCore (exPtr 1) ''r'' None,
      newNodeCore (exPtr 2) ''a'' (Some 0),
      \<lparr>pathNode = \<lparr>BlockPointer = exPtr 3, Name = []\<rparr>, parent = None,
         cachedPath = exSnapshot\<rparr>]\<rparr>"

definition exUnlinkedEmpty :: nodeCacheStandard where
  "exUnlinkedEmpty = exChain\<lparr>heap :=
     [newNodeCore (exPtr 1) ''r'' None,
      newNodeCore (exPtr 2) ''a'' (Some 0),
      \<lparr>pathNode = \<lparr>BlockPointer = exPtr 3, Name = []\<rparr>, parent = None,
         cachedPath = \<lparr>FolderBranch = exFB, path = []\<rparr>\<rparr>]\<rparr>"

text \<open>Operations on the other nodes of the chain, run after the unlink.\<close>

definition exOps :: "op list" where
  "exOps = [OpMove (exRef 2) (Some (nodeStandard 0)) ''z'',
            OpGetOrCreate (exPtr 4) ''d'' (Some (nodeStandard 1)),
            OpUpdatePointer (exRef 1) (exPtr 6),
            OpUnlink (exRef 2) \<lparr>FolderBranch = exFB, path = []\<rparr>]"

text \<open>
  Operations after the unlink that look up the unlinked node itself: a Move, an
  UpdatePointer, an Unlink with a snapshot that is not empty; and a Move of another node.
\<close>

definition exOpsSame :: "op list" where
  "exOpsSame = [OpMove (exRef 3) (Some (nodeStandard 0)) ''c'',
                OpUpdatePointer (exRef 3) (exPtr 7),
                OpUnlink (exRef 3) exSnapshot,
                OpMove (exRef 2) (Some (nodeStandard 0)) ''z'']"

text \<open>
  Three acquisitions of the identity of \<open>a\<close> and the three releases, from the cache that
  holds the root; and two acquisitions of an identity of which the second resurrects.
\<close>

definition exAcquireRelease :: "op list" where
  "exAcquireRelease =
     [OpGetOrCreate (exPtr 2) ''a'' (Some (nodeStandard 0)),
      OpGet (exRef 2),
      OpGetOrCreate (exPtr 2) ''a'' (Some (nodeStandard 0)),
      OpForget 1, OpForget 1, OpForget 1]"

definition exAcquireTwice :: "op list" where
  "exAcquireTwice =
     [OpGetOrCreate (exPtr 2) ''a'' None,
      OpGetOrCreate (exPtr 2) ''a'' (Some (nodeStandard 0))]"

section \<open>Properties\<close>

lemmas ex_defs = exFB_def exPtr_def exRef_def exEmpty_def exRoot_def exChain2_def exChain_def
  newNodeCacheStandard_def newNodeCore_def zeroPath_def zeroFolderBranch_def zeroRef_def
  zeroPtr_def ref_def ptrIsValid_def refIsValid_def coreRef_def

lemmas op_defs = GetOrCreate_def GetOrCreate_new_def GetOrCreate_insert_def
  newChildForParentLocked_def asNodeStandard_def makeNodeStandardForEntry_def makeNodeStandard_def Get_def UpdatePointer_def Move_def
  Unlink_def forget_def forgetLocked_def

lemma exRoot_built:
  "GetOrCreate exEmpty (exPtr 1) ''r'' None = Inr (Inr (nodeStandard 0), exRoot)"
  by (simp add: ex_defs op_defs)

lemma exChain2_built:
  "GetOrCreate exRoot (exPtr 2) ''a'' (Some (nodeStandard 0)) =
     Inr (Inr (nodeStandard 1), exChain2)"
  by (simp add: ex_defs op_defs)

lemma exChain_built:
  "GetOrCreate exChain2 (exPtr 3) ''b'' (Some (nodeStandard 1)) =
     Inr (Inr (nodeStandard 2), exChain)"
  by (simp add: ex_defs op_defs eval_nat_numeral)

subsection \<open>GetOrCreate on an attached entry\<close>

text \<open>
  C9. When GetOrCreate gets past its checks of the pointer and the name and finds an entry
  whose core has a parent, it returns a handle to that core and the only change to the state
  is the entry's count, one higher. The parent handle does not occur in the result: whatever
  it is, also one that newChildForParentLocked rejects, no error is returned.
\<close>

theorem GetOrCreate_attached_reuses:
  assumes "ptrIsValid p" and "name \<noteq> []"
    and "nodes ncs (ref p) = Some entry"
    and "parent (heap ncs ! core entry) \<noteq> None"
  shows "GetOrCreate ncs p name parentN =
     Inr (Inr (nodeStandard (core entry)),
          ncs\<lparr>nodes := (nodes ncs)(ref p \<mapsto> entry\<lparr>refCount := refCount entry + 1\<rparr>)\<rparr>)"
  using assms
  by (auto simp add: GetOrCreate_def makeNodeStandardForEntry_def makeNodeStandard_def)

theorem GetOrCreate_attached_reuses_witness:
  "ptrIsValid (exPtr 2) \<and> ''a'' \<noteq> [] \<and>
   nodes exChain (ref (exPtr 2)) = Some \<lparr>core = 1, refCount = 1\<rparr> \<and>
   parent (heap exChain ! core \<lparr>core = 1, refCount = 1\<rparr>) \<noteq> None \<and>
   newChildForParentLocked exChain (Some otherNode) =
     Inr (Inl (ParentNodeNotFoundError zeroRef)) \<and>
   GetOrCreate exChain (exPtr 2) ''a'' (Some otherNode) =
     Inr (Inr (nodeStandard 1),
          exChain\<lparr>nodes := (nodes exChain)(ref (exPtr 2) \<mapsto> \<lparr>core = 1, refCount = 2\<rparr>)\<rparr>)"
  using GetOrCreate_attached_reuses
          [of "exPtr 2" "''a''" exChain "\<lparr>core = 1, refCount = 1\<rparr>" "Some otherNode"]
  by (simp add: ex_defs newChildForParentLocked_def asNodeStandard_def)

subsection \<open>The loops of PathFromNode\<close>

lemma appendBackwards_take:
  "i \<le> length c \<Longrightarrow> appendBackwards p c i = p @ rev (take i c)"
proof (induction i arbitrary: p)
  case 0
  then show ?case by simp
next
  case (Suc i)
  then show ?case by (simp add: take_Suc_conv_app_nth)
qed

lemma appendBackwards_rev: "appendBackwards p c (length c) = p @ rev c"
  by (simp add: appendBackwards_take)

lemma length_reverseLoop [simp]: "length (reverseLoop k xs) = length xs"
  by (induction k arbitrary: xs) simp_all

lemma reverseLoop_nth:
  "2 * k \<le> length xs \<Longrightarrow> j < length xs \<Longrightarrow>
   reverseLoop k xs ! j =
     (if j < k \<or> length xs - k \<le> j then xs ! (length xs - 1 - j) else xs ! j)"
proof (induction k arbitrary: xs)
  case 0
  then show ?case by simp
next
  case (Suc k)
  let ?ys = "xs[k := xs ! (length xs - 1 - k), length xs - 1 - k := xs ! k]"
  have len: "length ?ys = length xs" by simp
  have "reverseLoop (Suc k) xs ! j = reverseLoop k ?ys ! j" by simp
  also have "\<dots> = (if j < k \<or> length ?ys - k \<le> j then ?ys ! (length ?ys - 1 - j) else ?ys ! j)"
    using Suc.IH [of ?ys] Suc.prems by simp
  also have "\<dots> = (if j < Suc k \<or> length xs - Suc k \<le> j then xs ! (length xs - 1 - j) else xs ! j)"
    using Suc.prems by (auto simp add: nth_list_update)
  finally show ?case .
qed

lemma reverseLoop_rev: "reverseLoop (length xs div 2) xs = rev xs"
proof (rule nth_equalityI)
  show "length (reverseLoop (length xs div 2) xs) = length (rev xs)" by simp
next
  fix j assume "j < length (reverseLoop (length xs div 2) xs)"
  then have j: "j < length xs" by simp
  have "reverseLoop (length xs div 2) xs ! j =
        (if j < length xs div 2 \<or> length xs - length xs div 2 \<le> j
         then xs ! (length xs - 1 - j) else xs ! j)"
    using j by (intro reverseLoop_nth) simp_all
  also have "\<dots> = xs ! (length xs - 1 - j)"
  proof (cases "j < length xs div 2 \<or> length xs - length xs div 2 \<le> j")
    case True then show ?thesis by simp
  next
    case False
    then have "length xs - 1 - j = j" using j by linarith
    then show ?thesis by simp
  qed
  also have "\<dots> = rev xs ! j" using j by (simp add: rev_nth)
  finally show "reverseLoop (length xs div 2) xs ! j = rev xs ! j" .
qed

subsection \<open>What a run leaves untouched\<close>

lemma heap_forgetLocked [simp]: "heap (forgetLocked ncs c) = heap ncs"
  by (simp add: forgetLocked_def split: option.splits)

lemma heap_GetOrCreate_new:
  "GetOrCreate_new ncs p name parentN = Inr (res, ncs') \<Longrightarrow>
   heap ncs' = heap ncs \<or> (\<exists>c. heap ncs' = heap ncs @ [c])"
  by (auto simp add: GetOrCreate_new_def GetOrCreate_insert_def makeNodeStandardForEntry_def
      Let_def split: option.splits sum.splits)

lemma heap_GetOrCreate:
  "GetOrCreate ncs p name parentN = Inr (res, ncs') \<Longrightarrow>
   heap ncs' = heap ncs \<or> (\<exists>c. heap ncs' = heap ncs @ [c])"
  by (auto simp add: GetOrCreate_def makeNodeStandardForEntry_def
      split: if_splits option.splits dest: heap_GetOrCreate_new)

lemma heap_Get: "Get ncs r = Inr (res, ncs') \<Longrightarrow> heap ncs' = heap ncs"
  by (auto simp add: Get_def makeNodeStandardForEntry_def split: if_splits option.splits)

lemma applyOp_keeps_core:
  assumes "applyOp ncs x = Some (n, ncs')" and "opTarget ncs x \<noteq> Some a"
    and "a < length (heap ncs)"
  shows "heap ncs' ! a = heap ncs ! a \<and> a < length (heap ncs')"
proof (cases x)
  case (OpGetOrCreate p name parentN)
  with assms(1) obtain res where "GetOrCreate ncs p name parentN = Inr (res, ncs')"
    by (auto split: sum.splits prod.splits)
  from heap_GetOrCreate [OF this] assms(3) show ?thesis
    by (auto simp add: nth_append)
next
  case (OpGet r)
  with assms(1) have "Get ncs r = Inr (n, ncs')" by (auto split: sum.splits)
  from heap_Get [OF this] assms(3) show ?thesis by simp
next
  case (OpForget c)
  with assms show ?thesis by (auto simp add: forget_def)
next
  case (OpUpdatePointer oldRef newPtr)
  with assms show ?thesis
    by (auto simp add: UpdatePointer_def split: sum.splits if_splits option.splits)
next
  case (OpMove r newParent newName)
  with assms show ?thesis
    by (auto simp add: Move_def split: sum.splits if_splits option.splits)
next
  case (OpUnlink r oldPath)
  with assms show ?thesis
    by (auto simp add: Unlink_def split: sum.splits if_splits option.splits)
qed

lemma runOthers_keeps_core:
  "runOthers a ncs xs = Some ncs' \<Longrightarrow> a < length (heap ncs) \<Longrightarrow>
   heap ncs' ! a = heap ncs ! a \<and> a < length (heap ncs')"
proof (induction xs arbitrary: ncs)
  case Nil
  then show ?case by simp
next
  case (Cons x xs)
  from Cons.prems(1) obtain n ncs1 where
    t: "opTarget ncs x \<noteq> Some a" and s: "applyOp ncs x = Some (n, ncs1)"
    and r: "runOthers a ncs1 xs = Some ncs'"
    by (auto split: if_splits option.splits)
  from applyOp_keeps_core [OF s t Cons.prems(2)]
  have k: "heap ncs1 ! a = heap ncs ! a" and l: "a < length (heap ncs1)" by simp_all
  from Cons.IH [OF r l] k show ?case by simp
qed

lemma PathFromNode_cached:
  "parent (heap ncs ! a) = None \<Longrightarrow> path (cachedPath (heap ncs ! a)) \<noteq> [] \<Longrightarrow>
   PathFromNode ncs (Some (nodeStandard a)) = Some (cachedPath (heap ncs ! a))"
  by (simp add: PathFromNode_def asNodeStandard_def walk.simps)

lemma Unlink_core:
  assumes "r \<noteq> zeroRef" "refIsValid r" "nodes ncs r = Some entry" "core entry < length (heap ncs)"
  shows "\<exists>ncs1. Unlink ncs r oldPath = Inr ncs1 \<and> nodes ncs1 = nodes ncs \<and>
           length (heap ncs1) = length (heap ncs) \<and>
           cachedPath (heap ncs1 ! core entry) = oldPath \<and>
           parent (heap ncs1 ! core entry) = None \<and>
           Name (pathNode (heap ncs1 ! core entry)) = [] \<and>
           BlockPointer (pathNode (heap ncs1 ! core entry)) = BlockPointer (pathNode (heap ncs ! core entry))"
  using assms by (simp add: Unlink_def)

lemma UpdatePointer_unlinked:
  assumes "refIsValid r" and "ptrIsValid newPtr" and "nodes ncs r = Some entry"
    and "path (cachedPath (heap ncs ! core entry)) \<noteq> []"
  shows "UpdatePointer ncs r newPtr = Inr ncs"
  using assms by (simp add: UpdatePointer_def)

lemmas exrun_defs = exSnapshot_def exUnlinked_def exUnlinkedEmpty_def exOps_def

lemma exUnlinked_built: "Unlink exChain (exRef 3) exSnapshot = Inr exUnlinked"
  by (simp add: ex_defs exrun_defs Unlink_def eval_nat_numeral)

lemma exUnlinkedEmpty_built:
  "Unlink exChain (exRef 3) \<lparr>FolderBranch = exFB, path = []\<rparr> = Inr exUnlinkedEmpty"
  by (simp add: ex_defs exrun_defs Unlink_def eval_nat_numeral)

lemma exOps_run: "runOthers 2 exUnlinked exOps \<noteq> None"
  by (simp add: ex_defs exrun_defs op_defs eval_nat_numeral)

subsection \<open>Unlink freezes the path\<close>

text \<open>
  C3, as stated, fails for an empty snapshot: the walk does not take a core without a parent
  for an unlinked one unless its cached path has an element, so after \<open>b\<close> is unlinked with
  an empty snapshot PathFromNode returns the one-element path of \<open>b\<close>'s own pointer and
  cleared name, not the stored snapshot.
\<close>

theorem Unlink_empty_snapshot_not_returned:
  "Unlink exChain (exRef 3) \<lparr>FolderBranch = exFB, path = []\<rparr> = Inr exUnlinkedEmpty \<and>
   cachedPath (heap exUnlinkedEmpty ! 2) = \<lparr>FolderBranch = exFB, path = []\<rparr> \<and>
   PathFromNode exUnlinkedEmpty (Some (nodeStandard 2)) =
     Some \<lparr>FolderBranch = exFB, path = [\<lparr>BlockPointer = exPtr 3, Name = []\<rparr>]\<rparr> \<and>
   PathFromNode exUnlinkedEmpty (Some (nodeStandard 2)) \<noteq>
     Some \<lparr>FolderBranch = exFB, path = []\<rparr>"
  by (simp add: ex_defs exrun_defs Unlink_def PathFromNode_def asNodeStandard_def walk.simps eval_nat_numeral)

text \<open>
  C3, amended: after Unlink of an indexed node with a snapshot that has at least one
  element, and after any run of further operations in which no UpdatePointer, Move or Unlink
  looks up that node's core, PathFromNode on a handle to the node returns the snapshot as it
  was stored.
\<close>

theorem Unlink_freezes_path:
  assumes "r \<noteq> zeroRef" and "refIsValid r"
    and "nodes ncs r = Some entry" and "core entry < length (heap ncs)"
    and "path snapshot \<noteq> []"
    and "Unlink ncs r snapshot = Inr ncs1"
    and "runOthers (core entry) ncs1 ops = Some ncs2"
  shows "PathFromNode ncs2 (Some (nodeStandard (core entry))) = Some snapshot"
proof -
  from Unlink_core [OF assms(1-4), of snapshot] assms(4,6)
  have l: "core entry < length (heap ncs1)"
    and c: "cachedPath (heap ncs1 ! core entry) = snapshot"
    and p: "parent (heap ncs1 ! core entry) = None" by auto
  from runOthers_keeps_core [OF assms(7) l]
  have "heap ncs2 ! core entry = heap ncs1 ! core entry" by simp
  with c p assms(5) show ?thesis by (simp add: PathFromNode_cached)
qed

theorem Unlink_freezes_path_witness:
  "exRef 3 \<noteq> zeroRef \<and> refIsValid (exRef 3) \<and>
   nodes exChain (exRef 3) = Some \<lparr>core = 2, refCount = 1\<rparr> \<and>
   core \<lparr>core = 2, refCount = 1\<rparr> < length (heap exChain) \<and>
   path exSnapshot \<noteq> [] \<and>
   Unlink exChain (exRef 3) exSnapshot = Inr exUnlinked \<and>
   runOthers 2 exUnlinked exOps \<noteq> None \<and>
   PathFromNode (the (runOthers 2 exUnlinked exOps)) (Some (nodeStandard 2)) = Some exSnapshot"
proof -
  have r: "runOthers (core \<lparr>core = 2, refCount = 1\<rparr>) exUnlinked exOps =
           Some (the (runOthers 2 exUnlinked exOps))"
    using exOps_run by auto
  have h: "exRef 3 \<noteq> zeroRef" "refIsValid (exRef 3)"
    "nodes exChain (exRef 3) = Some \<lparr>core = 2, refCount = 1\<rparr>"
    "core \<lparr>core = 2, refCount = 1\<rparr> < length (heap exChain)"
    "path exSnapshot \<noteq> []"
    by (simp_all add: ex_defs exrun_defs)
  from Unlink_freezes_path [OF h exUnlinked_built r] h exUnlinked_built exOps_run
  show ?thesis by simp
qed

subsection \<open>UpdatePointer on an unlinked node\<close>

lemma nth_update_at: "a < length xs \<Longrightarrow> xs[k := v] ! a = (if k = a then v else xs ! a)"
  by auto

lemma applyOp_keeps_snapshot:
  assumes "applyOp ncs x = Some (n, ncs')" and "\<not> emptiesSnapshot a ncs x"
    and "a < length (heap ncs)" and "path (cachedPath (heap ncs ! a)) \<noteq> []"
  shows "path (cachedPath (heap ncs' ! a)) \<noteq> [] \<and>
         BlockPointer (pathNode (heap ncs' ! a)) = BlockPointer (pathNode (heap ncs ! a)) \<and>
         a < length (heap ncs')"
proof (cases x)
  case (OpGetOrCreate p name parentN)
  with assms(1) obtain res where "GetOrCreate ncs p name parentN = Inr (res, ncs')"
    by (auto split: sum.splits prod.splits)
  from heap_GetOrCreate [OF this] assms(3,4) show ?thesis
    by (auto simp add: nth_append)
next
  case (OpGet r)
  with assms(1) have "Get ncs r = Inr (n, ncs')" by (auto split: sum.splits)
  from heap_Get [OF this] assms(3,4) show ?thesis by simp
next
  case (OpForget c)
  with assms show ?thesis by (auto simp add: forget_def)
next
  case (OpUpdatePointer oldRef newPtr)
  with assms show ?thesis
    by (auto simp add: UpdatePointer_def nth_update_at
        split: sum.splits if_splits option.splits)
next
  case (OpMove r newParent newName)
  with assms show ?thesis
    by (auto simp add: Move_def nth_update_at split: sum.splits if_splits option.splits)
next
  case (OpUnlink r oldPath)
  with assms show ?thesis
    by (auto simp add: Unlink_def nth_update_at split: sum.splits if_splits option.splits)
qed

lemma runKeepingSnapshot_keeps:
  "runKeepingSnapshot a ncs xs = Some ncs' \<Longrightarrow> a < length (heap ncs) \<Longrightarrow>
   path (cachedPath (heap ncs ! a)) \<noteq> [] \<Longrightarrow>
   path (cachedPath (heap ncs' ! a)) \<noteq> [] \<and>
   BlockPointer (pathNode (heap ncs' ! a)) = BlockPointer (pathNode (heap ncs ! a)) \<and>
   a < length (heap ncs')"
proof (induction xs arbitrary: ncs)
  case Nil
  then show ?case by simp
next
  case (Cons x xs)
  from Cons.prems(1) obtain n ncs1 where
    t: "\<not> emptiesSnapshot a ncs x" and s: "applyOp ncs x = Some (n, ncs1)"
    and r: "runKeepingSnapshot a ncs1 xs = Some ncs'"
    by (auto split: if_splits option.splits)
  from applyOp_keeps_snapshot [OF s t Cons.prems(2,3)]
  have k: "path (cachedPath (heap ncs1 ! a)) \<noteq> []"
    and b: "BlockPointer (pathNode (heap ncs1 ! a)) = BlockPointer (pathNode (heap ncs ! a))"
    and l: "a < length (heap ncs1)" by simp_all
  from Cons.IH [OF r l k] b show ?case by simp
qed

lemma exOpsSame_run: "runKeepingSnapshot 2 exUnlinked exOpsSame \<noteq> None"
  by (simp add: ex_defs exrun_defs exOpsSame_def op_defs eval_nat_numeral)

text \<open>
  C2, as stated, fails for a node unlinked with an empty snapshot: UpdatePointer tests the
  length of the cached path, finds it zero, rewrites the pointer and moves the entry to the
  new key.
\<close>

theorem UpdatePointer_after_empty_Unlink_rekeys:
  "Unlink exChain (exRef 3) \<lparr>FolderBranch = exFB, path = []\<rparr> = Inr exUnlinkedEmpty \<and>
   BlockPointer (pathNode (heap exUnlinkedEmpty ! 2)) = exPtr 3 \<and>
   nodes exUnlinkedEmpty (exRef 3) = Some \<lparr>core = 2, refCount = 1\<rparr> \<and>
   \<not> isl (UpdatePointer exUnlinkedEmpty (exRef 3) (exPtr 5)) \<and>
   BlockPointer (pathNode (heap (projr (UpdatePointer exUnlinkedEmpty (exRef 3) (exPtr 5))) ! 2))
     = exPtr 5 \<and>
   exPtr 5 \<noteq> exPtr 3 \<and>
   nodes (projr (UpdatePointer exUnlinkedEmpty (exRef 3) (exPtr 5))) (exRef 3) = None \<and>
   nodes (projr (UpdatePointer exUnlinkedEmpty (exRef 3) (exPtr 5))) (exRef 5)
     = Some \<lparr>core = 2, refCount = 1\<rparr>"
  by (simp add: ex_defs exrun_defs Unlink_def UpdatePointer_def eval_nat_numeral)

text \<open>
  C2, amended: a node in the index is unlinked with a snapshot that has at least one
  element. After any run of further operations, also of Move, UpdatePointer and Unlink on
  that same node, in which no Unlink stores an empty snapshot in the node's core, the core
  still carries the pointer it had before the unlink, and an UpdatePointer with valid
  arguments whose old reference resolves to the node returns the state as it is: the
  pointer is unchanged and the entry stays under its key.
\<close>

theorem UpdatePointer_after_Unlink:
  assumes "r \<noteq> zeroRef" and "refIsValid r"
    and "nodes ncs r = Some entry" and "core entry < length (heap ncs)"
    and "path snapshot \<noteq> []"
    and "Unlink ncs r snapshot = Inr ncs1"
    and "runKeepingSnapshot (core entry) ncs1 ops = Some ncs2"
    and "nodes ncs2 r' = Some entry'" and "core entry' = core entry"
    and "refIsValid r'" and "ptrIsValid newPtr"
  shows "UpdatePointer ncs2 r' newPtr = Inr ncs2 \<and>
         BlockPointer (pathNode (heap ncs2 ! core entry)) =
           BlockPointer (pathNode (heap ncs ! core entry))"
proof -
  from Unlink_core [OF assms(1-4), of snapshot] assms(4,6)
  have l: "core entry < length (heap ncs1)"
    and c: "cachedPath (heap ncs1 ! core entry) = snapshot"
    and b: "BlockPointer (pathNode (heap ncs1 ! core entry)) =
            BlockPointer (pathNode (heap ncs ! core entry))" by auto
  from c assms(5) have "path (cachedPath (heap ncs1 ! core entry)) \<noteq> []" by simp
  from runKeepingSnapshot_keeps [OF assms(7) l this]
  have k: "path (cachedPath (heap ncs2 ! core entry)) \<noteq> []"
    and b2: "BlockPointer (pathNode (heap ncs2 ! core entry)) =
             BlockPointer (pathNode (heap ncs1 ! core entry))" by simp_all
  from k assms(9) have "path (cachedPath (heap ncs2 ! core entry')) \<noteq> []" by simp
  from UpdatePointer_unlinked [OF assms(10,11,8) this] b b2 show ?thesis by simp
qed

theorem UpdatePointer_after_Unlink_witness:
  "exRef 3 \<noteq> zeroRef \<and> refIsValid (exRef 3) \<and>
   nodes exChain (exRef 3) = Some \<lparr>core = 2, refCount = 1\<rparr> \<and>
   core \<lparr>core = 2, refCount = 1\<rparr> < length (heap exChain) \<and>
   path exSnapshot \<noteq> [] \<and>
   Unlink exChain (exRef 3) exSnapshot = Inr exUnlinked \<and>
   runKeepingSnapshot 2 exUnlinked exOpsSame \<noteq> None \<and>
   nodes (the (runKeepingSnapshot 2 exUnlinked exOpsSame)) (exRef 3) =
     Some \<lparr>core = 2, refCount = 1\<rparr> \<and>
   ptrIsValid (exPtr 5) \<and>
   UpdatePointer (the (runKeepingSnapshot 2 exUnlinked exOpsSame)) (exRef 3) (exPtr 5) =
     Inr (the (runKeepingSnapshot 2 exUnlinked exOpsSame)) \<and>
   BlockPointer (pathNode (heap (the (runKeepingSnapshot 2 exUnlinked exOpsSame)) ! 2)) = exPtr 3"
proof -
  have r: "runKeepingSnapshot (core \<lparr>core = 2, refCount = 1\<rparr>) exUnlinked exOpsSame =
           Some (the (runKeepingSnapshot 2 exUnlinked exOpsSame))"
    using exOpsSame_run by auto
  have h: "exRef 3 \<noteq> zeroRef" "refIsValid (exRef 3)"
    "nodes exChain (exRef 3) = Some \<lparr>core = 2, refCount = 1\<rparr>"
    "core \<lparr>core = 2, refCount = 1\<rparr> < length (heap exChain)"
    "path exSnapshot \<noteq> []"
    by (simp_all add: ex_defs exrun_defs)
  have n: "nodes (the (runKeepingSnapshot 2 exUnlinked exOpsSame)) (exRef 3) =
             Some \<lparr>core = 2, refCount = 1\<rparr>"
    by (simp add: ex_defs exrun_defs exOpsSame_def op_defs eval_nat_numeral)
  have c: "core \<lparr>core = 2, refCount = 1\<rparr> = core \<lparr>core = 2, refCount = 1\<rparr>" by simp
  have v: "ptrIsValid (exPtr 5)" by (simp add: ex_defs)
  have p: "BlockPointer (pathNode (heap exChain ! 2)) = exPtr 3"
    by (simp add: ex_defs eval_nat_numeral)
  from UpdatePointer_after_Unlink [OF h exUnlinked_built r n c h(2) v]
    h exUnlinked_built exOpsSame_run n v p
  show ?thesis by simp
qed

subsection \<open>Move and Unlink on an absent identity\<close>

text \<open>
  C10, as stated, fails for Move with an empty new name: the name is checked before the
  index is looked up, so the call returns the empty-name error although the identity is
  valid, not the sentinel, and absent.
\<close>

theorem Move_absent_empty_name_fails:
  "exRef 9 \<noteq> zeroRef \<and> refIsValid (exRef 9) \<and> nodes exChain (exRef 9) = None \<and>
   Move exChain (exRef 9) (Some (nodeStandard 0)) [] =
     Inr (Some (EmptyNameError (exRef 9)), exChain)"
  by (simp add: ex_defs Move_def)

text \<open>
  C10, amended: Move with a valid identity that is not the sentinel and is absent from the
  index returns no error when the new name is non-empty and the empty-name error when it is
  empty; Unlink with such an identity returns; both leave the state as it was, and neither
  reports the absence.
\<close>

theorem Move_Unlink_absent_noop:
  assumes "r \<noteq> zeroRef" and "refIsValid r" and "nodes ncs r = None"
  shows "Move ncs r newParent newName =
           Inr (if newName = [] then Some (EmptyNameError r) else None, ncs) \<and>
         Unlink ncs r oldPath = Inr ncs"
  using assms by (simp add: Move_def Unlink_def)

theorem Move_Unlink_absent_noop_witness:
  "exRef 9 \<noteq> zeroRef \<and> refIsValid (exRef 9) \<and> nodes exChain (exRef 9) = None \<and>
   Move exChain (exRef 9) (Some otherNode) ''n'' = Inr (None, exChain) \<and>
   Unlink exChain (exRef 9) exSnapshot = Inr exChain"
  using Move_Unlink_absent_noop [of "exRef 9" exChain "Some otherNode" "''n''" exSnapshot]
  by (simp add: ex_defs)

subsection \<open>Path reconstruction\<close>

lemma walk_chain3:
  assumes "parent (h ! b) = Some a" and "parent (h ! a) = Some r"
    and "parent (h ! r) = None" and "path (cachedPath (h ! r)) = []"
  shows "walk h (Some b) [] = Some (Inr [pathNode (h ! b), pathNode (h ! a), pathNode (h ! r)])"
proof -
  have "walk h (Some b) [] = walk h (Some a) [pathNode (h ! b)]"
    using assms(1) by (subst walk.simps) simp
  also have "\<dots> = walk h (Some r) [pathNode (h ! b), pathNode (h ! a)]"
    using assms(2) by (subst walk.simps) simp
  also have "\<dots> = walk h None [pathNode (h ! b), pathNode (h ! a), pathNode (h ! r)]"
    using assms(3,4) by (subst walk.simps) simp
  also have "\<dots> = Some (Inr [pathNode (h ! b), pathNode (h ! a), pathNode (h ! r)])"
    by (subst walk.simps) simp
  finally show ?thesis .
qed

lemma PathFromNode_chain3:
  assumes "parent (heap ncs ! b) = Some a" and "parent (heap ncs ! a) = Some r"
    and "parent (heap ncs ! r) = None" and "path (cachedPath (heap ncs ! r)) = []"
  shows "PathFromNode ncs (Some (nodeStandard b)) =
     Some \<lparr>FolderBranch = folderBranch ncs,
           path = [pathNode (heap ncs ! r), pathNode (heap ncs ! a), pathNode (heap ncs ! b)]\<rparr>"
proof -
  have "reverseLoop (length [pathNode (heap ncs ! b), pathNode (heap ncs ! a), pathNode (heap ncs ! r)] div 2)
          [pathNode (heap ncs ! b), pathNode (heap ncs ! a), pathNode (heap ncs ! r)] =
        [pathNode (heap ncs ! r), pathNode (heap ncs ! a), pathNode (heap ncs ! b)]"
    by (simp only: reverseLoop_rev) simp
  then show ?thesis
    using walk_chain3 [OF assms] by (simp add: PathFromNode_def asNodeStandard_def)
qed

lemma exChain_path: "PathFromNode exChain (Some (nodeStandard 2)) = Some exSnapshot"
proof -
  have "parent (heap exChain ! 2) = Some 1" "parent (heap exChain ! 1) = Some 0"
    "parent (heap exChain ! 0) = None" "path (cachedPath (heap exChain ! 0)) = []"
    by (simp_all add: ex_defs eval_nat_numeral)
  from PathFromNode_chain3 [OF this] show ?thesis
    by (simp add: ex_defs exrun_defs eval_nat_numeral)
qed

text \<open>
  C4, as stated, fails on the chain that three calls of GetOrCreate build: GetOrCreate
  rejects an empty name, also for the root, and the root's path node carries the name the
  root was created with.
\<close>

theorem PathFromNode_chain_root_name:
  "GetOrCreate exEmpty (exPtr 1) [] None = Inr (Inl (EmptyNameError (exRef 1)), exEmpty) \<and>
   GetOrCreate exEmpty (exPtr 1) ''r'' None = Inr (Inr (nodeStandard 0), exRoot) \<and>
   GetOrCreate exRoot (exPtr 2) ''a'' (Some (nodeStandard 0)) =
     Inr (Inr (nodeStandard 1), exChain2) \<and>
   GetOrCreate exChain2 (exPtr 3) ''b'' (Some (nodeStandard 1)) =
     Inr (Inr (nodeStandard 2), exChain) \<and>
   PathFromNode exChain (Some (nodeStandard 2)) =
     Some \<lparr>FolderBranch = exFB,
           path = [\<lparr>BlockPointer = exPtr 1, Name = ''r''\<rparr>,
                   \<lparr>BlockPointer = exPtr 2, Name = ''a''\<rparr>,
                   \<lparr>BlockPointer = exPtr 3, Name = ''b''\<rparr>]\<rparr> \<and>
   PathFromNode exChain (Some (nodeStandard 2)) \<noteq>
     Some \<lparr>FolderBranch = exFB,
           path = [\<lparr>BlockPointer = exPtr 1, Name = []\<rparr>,
                   \<lparr>BlockPointer = exPtr 2, Name = ''a''\<rparr>,
                   \<lparr>BlockPointer = exPtr 3, Name = ''b''\<rparr>]\<rparr>"
proof -
  have e: "GetOrCreate exEmpty (exPtr 1) [] None =
             Inr (Inl (EmptyNameError (exRef 1)), exEmpty)"
    by (simp add: ex_defs GetOrCreate_def)
  have p: "PathFromNode exChain (Some (nodeStandard 2)) =
     Some \<lparr>FolderBranch = exFB,
           path = [\<lparr>BlockPointer = exPtr 1, Name = ''r''\<rparr>,
                   \<lparr>BlockPointer = exPtr 2, Name = ''a''\<rparr>,
                   \<lparr>BlockPointer = exPtr 3, Name = ''b''\<rparr>]\<rparr>"
    using exChain_path by (simp add: exSnapshot_def)
  have n: "PathFromNode exChain (Some (nodeStandard 2)) \<noteq>
     Some \<lparr>FolderBranch = exFB,
           path = [\<lparr>BlockPointer = exPtr 1, Name = []\<rparr>,
                   \<lparr>BlockPointer = exPtr 2, Name = ''a''\<rparr>,
                   \<lparr>BlockPointer = exPtr 3, Name = ''b''\<rparr>]\<rparr>"
    by (simp add: p)
  from e exRoot_built exChain2_built exChain_built p n show ?thesis
    by (intro conjI)
qed

text \<open>
  C4, amended: for a root R without a parent and without a cached path, a child A of R
  named \<open>a\<close> and a child B of A named \<open>b\<close>, PathFromNode on a handle to B returns the
  sequence of R's pointer with the name that R's core carries at the time of the call,
  A's pointer with \<open>a\<close> and B's pointer with \<open>b\<close>, in this order, tagged with the cache's
  folder-branch.
\<close>

theorem PathFromNode_chain:
  assumes "parent (heap ncs ! b) = Some a" and "Name (pathNode (heap ncs ! b)) = ''b''"
    and "parent (heap ncs ! a) = Some r" and "Name (pathNode (heap ncs ! a)) = ''a''"
    and "parent (heap ncs ! r) = None" and "path (cachedPath (heap ncs ! r)) = []"
  shows "PathFromNode ncs (Some (nodeStandard b)) =
     Some \<lparr>FolderBranch = folderBranch ncs,
           path = [\<lparr>BlockPointer = BlockPointer (pathNode (heap ncs ! r)),
                     Name = Name (pathNode (heap ncs ! r))\<rparr>,
                   \<lparr>BlockPointer = BlockPointer (pathNode (heap ncs ! a)), Name = ''a''\<rparr>,
                   \<lparr>BlockPointer = BlockPointer (pathNode (heap ncs ! b)), Name = ''b''\<rparr>]\<rparr>"
proof -
  have "pathNode (heap ncs ! a) =
      \<lparr>BlockPointer = BlockPointer (pathNode (heap ncs ! a)), Name = ''a''\<rparr>"
    using assms(4) by (cases "pathNode (heap ncs ! a)") simp
  moreover have "pathNode (heap ncs ! b) =
      \<lparr>BlockPointer = BlockPointer (pathNode (heap ncs ! b)), Name = ''b''\<rparr>"
    using assms(2) by (cases "pathNode (heap ncs ! b)") simp
  ultimately show ?thesis
    using PathFromNode_chain3 [OF assms(1,3,5,6)] by simp
qed

theorem PathFromNode_chain_witness:
  "parent (heap exChain ! 2) = Some 1 \<and> Name (pathNode (heap exChain ! 2)) = ''b'' \<and>
   parent (heap exChain ! 1) = Some 0 \<and> Name (pathNode (heap exChain ! 1)) = ''a'' \<and>
   parent (heap exChain ! 0) = None \<and> path (cachedPath (heap exChain ! 0)) = [] \<and>
   PathFromNode exChain (Some (nodeStandard 2)) =
     Some \<lparr>FolderBranch = exFB,
           path = [\<lparr>BlockPointer = exPtr 1, Name = ''r''\<rparr>,
                   \<lparr>BlockPointer = exPtr 2, Name = ''a''\<rparr>,
                   \<lparr>BlockPointer = exPtr 3, Name = ''b''\<rparr>]\<rparr>"
  using PathFromNode_chain [of exChain 2 1 0]
  by (simp add: ex_defs eval_nat_numeral)

lemma walk_no_return_later':
  "walk h ns p = Some res \<Longrightarrow> p \<noteq> [] \<longrightarrow> \<not> isl res"
proof (induction rule: walk.raw_induct [rotated 1, consumes 1])
  case (1 walk' h ns p res)
  then show ?case
    by (auto split: option.splits if_splits)
qed

lemma walk_no_return_later:
  "walk h ns p = Some res \<Longrightarrow> p \<noteq> [] \<Longrightarrow> \<not> isl res"
  using walk_no_return_later' by blast

lemma walk_return_first:
  assumes "walk h (Some a) [] = Some (Inl cp)"
  shows "parent (h ! a) = None \<and> path (cachedPath (h ! a)) \<noteq> []"
proof (rule ccontr)
  assume n: "\<not> (parent (h ! a) = None \<and> path (cachedPath (h ! a)) \<noteq> [])"
  then have "walk h (Some a) [] = walk h (parent (h ! a)) ([] @ [pathNode (h ! a)])"
    by (subst walk.simps) auto
  with assms have "walk h (parent (h ! a)) ([] @ [pathNode (h ! a)]) = Some (Inl cp)" by simp
  from walk_no_return_later [OF this] show False by simp
qed

text \<open>
  C8, as stated, fails twice. For a handle that is not a nodeStandard the function returns
  before the tag is set, so the empty path it returns carries the zero folder-branch; and
  when the first core visited is an unlinked one the stored snapshot is returned as it is,
  with the tag it was stored with.
\<close>

theorem PathFromNode_tag_not_set:
  "folderBranch exChain = exFB \<and> exFB \<noteq> zeroFolderBranch \<and>
   PathFromNode exChain (Some otherNode) = Some \<lparr>FolderBranch = zeroFolderBranch, path = []\<rparr> \<and>
   Unlink exChain (exRef 3) (exSnapshot\<lparr>FolderBranch := \<lparr>Tlf = 8, Branch = ''other''\<rparr>\<rparr>) =
     Inr (exUnlinked\<lparr>heap := (heap exUnlinked)[2 := (heap exUnlinked ! 2)
            \<lparr>cachedPath := exSnapshot\<lparr>FolderBranch := \<lparr>Tlf = 8, Branch = ''other''\<rparr>\<rparr>\<rparr>]\<rparr>) \<and>
   PathFromNode (exUnlinked\<lparr>heap := (heap exUnlinked)[2 := (heap exUnlinked ! 2)
            \<lparr>cachedPath := exSnapshot\<lparr>FolderBranch := \<lparr>Tlf = 8, Branch = ''other''\<rparr>\<rparr>\<rparr>]\<rparr>)
       (Some (nodeStandard 2)) =
     Some (exSnapshot\<lparr>FolderBranch := \<lparr>Tlf = 8, Branch = ''other''\<rparr>\<rparr>) \<and>
   \<lparr>Tlf = 8, Branch = ''other''\<rparr> \<noteq> exFB"
  by (simp add: ex_defs exrun_defs Unlink_def PathFromNode_def asNodeStandard_def walk.simps eval_nat_numeral)

text \<open>
  C8, amended: PathFromNode returns the zero path, with an empty sequence and the zero tag,
  whenever the handle is nil or not a nodeStandard; it returns the stored snapshot, tag
  included, when the handle's core has no parent and a non-empty cached path; every other
  path it returns carries this cache's folder-branch, also the empty one it returns for a
  handle that holds a nil pointer.
\<close>

theorem PathFromNode_tag:
  "(node = None \<or> node = Some otherNode \<longrightarrow> PathFromNode ncs node = Some zeroPath) \<and>
   PathFromNode ncs (Some nilNodeStandard) =
     Some \<lparr>FolderBranch = folderBranch ncs, path = []\<rparr> \<and>
   (parent (heap ncs ! a) = None \<and> path (cachedPath (heap ncs ! a)) \<noteq> [] \<longrightarrow>
      PathFromNode ncs (Some (nodeStandard a)) = Some (cachedPath (heap ncs ! a))) \<and>
   (\<not> (parent (heap ncs ! a) = None \<and> path (cachedPath (heap ncs ! a)) \<noteq> []) \<and>
    PathFromNode ncs (Some (nodeStandard a)) = Some p \<longrightarrow>
      FolderBranch p = folderBranch ncs)"
proof (intro conjI impI)
  assume "node = None \<or> node = Some otherNode"
  then show "PathFromNode ncs node = Some zeroPath"
    by (auto simp add: PathFromNode_def asNodeStandard_def)
next
  show "PathFromNode ncs (Some nilNodeStandard) =
     Some \<lparr>FolderBranch = folderBranch ncs, path = []\<rparr>"
    by (simp add: PathFromNode_def asNodeStandard_def walk.simps)
next
  assume "parent (heap ncs ! a) = None \<and> path (cachedPath (heap ncs ! a)) \<noteq> []"
  then show "PathFromNode ncs (Some (nodeStandard a)) = Some (cachedPath (heap ncs ! a))"
    by (simp add: PathFromNode_cached)
next
  assume h: "\<not> (parent (heap ncs ! a) = None \<and> path (cachedPath (heap ncs ! a)) \<noteq> []) \<and>
    PathFromNode ncs (Some (nodeStandard a)) = Some p"
  show "FolderBranch p = folderBranch ncs"
  proof (cases "walk (heap ncs) (Some a) []")
    case None
    with h show ?thesis by (simp add: PathFromNode_def asNodeStandard_def)
  next
    case (Some res)
    show ?thesis
    proof (cases res)
      case (Inl cp)
      with Some walk_return_first [of "heap ncs" a cp] h show ?thesis by simp
    next
      case (Inr q)
      with Some h show ?thesis by (auto simp add: PathFromNode_def asNodeStandard_def)
    qed
  qed
qed

theorem PathFromNode_tag_witness:
  "PathFromNode exChain (Some otherNode) = Some zeroPath \<and>
   parent (heap exUnlinked ! 2) = None \<and> path (cachedPath (heap exUnlinked ! 2)) \<noteq> [] \<and>
   PathFromNode exUnlinked (Some (nodeStandard 2)) = Some exSnapshot \<and>
   parent (heap exChain ! 2) \<noteq> None \<and>
   PathFromNode exChain (Some (nodeStandard 2)) = Some exSnapshot \<and>
   FolderBranch exSnapshot = folderBranch exChain"
proof -
  note p = exChain_path
  have u: "parent (heap exUnlinked ! 2) = None" "path (cachedPath (heap exUnlinked ! 2)) \<noteq> []"
    "parent (heap exChain ! 2) \<noteq> None"
    by (simp_all add: ex_defs exrun_defs eval_nat_numeral)
  have c: "cachedPath (heap exUnlinked ! 2) = exSnapshot"
    by (simp add: ex_defs exrun_defs eval_nat_numeral)
  from PathFromNode_tag [of "Some otherNode" exChain 2 exSnapshot]
    PathFromNode_tag [of "Some otherNode" exUnlinked 2 exSnapshot] p u c
  show ?thesis by simp
qed

subsection \<open>Parent validation\<close>

lemma newChildForParentLocked_iff:
  "newChildForParentLocked ncs parentN = Inr (Inr c) \<longleftrightarrow>
     parentN = Some (nodeStandard c) \<and> parentResolves ncs parentN"
  by (auto simp add: newChildForParentLocked_def asNodeStandard_def parentResolves_def
      split: option.splits Node.splits)

lemma newChildForParentLocked_fails:
  "\<not> parentResolves ncs parentN \<Longrightarrow> parentN \<noteq> Some nilNodeStandard \<Longrightarrow>
   \<exists>r. newChildForParentLocked ncs parentN = Inr (Inl (ParentNodeNotFoundError r))"
  by (auto simp add: newChildForParentLocked_def asNodeStandard_def parentResolves_def
      split: option.splits Node.splits)

lemma newChildForParentLocked_nil:
  "newChildForParentLocked ncs (Some nilNodeStandard) = Inl NilDereference"
  by (simp add: newChildForParentLocked_def asNodeStandard_def)

lemma parentResolves_after_delete:
  "parentResolves (ncs\<lparr>nodes := (nodes ncs)(k := None)\<rparr>) parentN \<Longrightarrow> parentResolves ncs parentN"
  by (auto simp add: parentResolves_def coreRef_def split: option.splits Node.splits if_splits)

lemma GetOrCreate_new_fails:
  assumes "\<not> parentResolves ncs parentN" and "parentN \<noteq> None"
    and "parentN \<noteq> Some nilNodeStandard"
  shows "\<exists>r. GetOrCreate_new ncs p name parentN = Inr (Inl (ParentNodeNotFoundError r), ncs)"
proof -
  from newChildForParentLocked_fails [OF assms(1,3)] obtain r where
    "newChildForParentLocked ncs parentN = Inr (Inl (ParentNodeNotFoundError r))" by blast
  with assms(2) show ?thesis
    by (auto simp add: GetOrCreate_new_def)
qed

lemma GetOrCreate_new_nil:
  "GetOrCreate_new ncs p name (Some nilNodeStandard) = Inl NilDereference"
  by (simp add: GetOrCreate_new_def newChildForParentLocked_nil)

lemma GetOrCreate_new_creates:
  assumes "parentResolves ncs (Some (nodeStandard c))"
  shows "GetOrCreate_new ncs p name (Some (nodeStandard c)) =
     Inr (Inr (nodeStandard (length (heap ncs))),
          ncs\<lparr>heap := heap ncs @ [newNodeCore p name (Some c)],
              nodes := (nodes ncs)(ref p \<mapsto> \<lparr>core = length (heap ncs), refCount = 1\<rparr>)\<rparr>)"
proof -
  from assms have "newChildForParentLocked ncs (Some (nodeStandard c)) = Inr (Inr c)"
    by (simp add: newChildForParentLocked_iff)
  then show ?thesis
    by (simp add: GetOrCreate_new_def GetOrCreate_insert_def makeNodeStandardForEntry_def
        makeNodeStandard_def Let_def)
qed

text \<open>
  C1, as stated, fails in these ways on the example states. A GetOrCreate that finds an
  attached entry never looks at the parent and succeeds; a GetOrCreate with an empty name
  returns the empty-name error; a Move of an identity that is not in the index, or of the
  sentinel, succeeds; a GetOrCreate that finds a detached entry has deleted that entry from
  the index by the time the parent is rejected; and a parent handle that holds a nil
  pointer makes the validation panic.
\<close>

theorem parent_mismatch_not_always_rejected:
  "\<not> parentResolves exChain (Some otherNode) \<and>
   GetOrCreate exChain (exPtr 2) ''a'' (Some otherNode) =
     Inr (Inr (nodeStandard 1),
          exChain\<lparr>nodes := (nodes exChain)(exRef 2 \<mapsto> \<lparr>core = 1, refCount = 2\<rparr>)\<rparr>) \<and>
   GetOrCreate exChain (exPtr 4) [] (Some otherNode) =
     Inr (Inl (EmptyNameError (exRef 4)), exChain) \<and>
   nodes exChain (exRef 9) = None \<and>
   Move exChain (exRef 9) (Some otherNode) ''n'' = Inr (None, exChain) \<and>
   Move exChain zeroRef (Some otherNode) ''n'' = Inr (None, exChain) \<and>
   \<not> parentResolves exUnlinked (Some otherNode) \<and>
   nodes exUnlinked (exRef 3) = Some \<lparr>core = 2, refCount = 1\<rparr> \<and>
   GetOrCreate exUnlinked (exPtr 3) ''b'' (Some otherNode) =
     Inr (Inl (ParentNodeNotFoundError zeroRef),
          exUnlinked\<lparr>nodes := (nodes exUnlinked)(exRef 3 := None)\<rparr>) \<and>
   nodes (exUnlinked\<lparr>nodes := (nodes exUnlinked)(exRef 3 := None)\<rparr>) (exRef 3) = None \<and>
   \<not> parentResolves exChain (Some nilNodeStandard) \<and>
   nodes exChain (exRef 4) = None \<and>
   GetOrCreate exChain (exPtr 4) ''d'' (Some nilNodeStandard) = Inl NilDereference \<and>
   Move exChain (exRef 3) (Some nilNodeStandard) ''d'' = Inl NilDereference"
  by (simp add: ex_defs exrun_defs op_defs parentResolves_def eval_nat_numeral)

text \<open>
  C1, amended: the parent handle does not resolve to an entry of the index for its own
  core. A GetOrCreate that reaches the validation of the parent (valid pointer, non-empty
  name, a parent handle that is not nil, and under the identity either no entry or an entry
  whose core has no parent) returns the parent-not-found error; it leaves the state as it
  was when there was no entry under the identity, and when there was a detached one it has
  removed that entry from the index and changed nothing else. A Move that reaches the
  validation (valid identity that is not the sentinel, non-empty new name, an entry under
  the identity) returns the parent-not-found error and leaves the state as it was. In both,
  a parent handle that holds a nil pointer makes the validation panic instead. A call that
  does not reach the validation does not report the parent: GetOrCreate panics on an
  invalid pointer, returns the empty-name error for an empty name, and returns a handle to
  the existing core, with the count one higher, when the entry is attached; Move returns no
  error for the sentinel and for an identity without an entry, panics on an invalid
  identity, and returns the empty-name error for an empty new name.
\<close>

theorem parent_mismatch_rejected:
  assumes "\<not> parentResolves ncs parentN"
  shows "(ptrIsValid p \<and> name \<noteq> [] \<and> parentN \<noteq> None \<and> parentN \<noteq> Some nilNodeStandard \<and>
          nodes ncs (ref p) = None \<longrightarrow>
            (\<exists>r'. GetOrCreate ncs p name parentN =
                     Inr (Inl (ParentNodeNotFoundError r'), ncs))) \<and>
         (ptrIsValid p \<and> name \<noteq> [] \<and> parentN \<noteq> None \<and> parentN \<noteq> Some nilNodeStandard \<and>
          nodes ncs (ref p) = Some e \<and> parent (heap ncs ! core e) = None \<longrightarrow>
            (\<exists>r'. GetOrCreate ncs p name parentN =
                     Inr (Inl (ParentNodeNotFoundError r'),
                          ncs\<lparr>nodes := (nodes ncs)(ref p := None)\<rparr>))) \<and>
         (r \<noteq> zeroRef \<and> refIsValid r \<and> newName \<noteq> [] \<and> nodes ncs r \<noteq> None \<and>
          parentN \<noteq> Some nilNodeStandard \<longrightarrow>
            (\<exists>r'. Move ncs r parentN newName = Inr (Some (ParentNodeNotFoundError r'), ncs))) \<and>
         (ptrIsValid p \<and> name \<noteq> [] \<and>
          (nodes ncs (ref p) = None \<or>
           (nodes ncs (ref p) = Some e \<and> parent (heap ncs ! core e) = None)) \<longrightarrow>
            GetOrCreate ncs p name (Some nilNodeStandard) = Inl NilDereference) \<and>
         (r \<noteq> zeroRef \<and> refIsValid r \<and> newName \<noteq> [] \<and> nodes ncs r \<noteq> None \<longrightarrow>
            Move ncs r (Some nilNodeStandard) newName = Inl NilDereference) \<and>
         (\<not> ptrIsValid p \<longrightarrow>
            GetOrCreate ncs p name parentN = Inl (InvalidBlockRefError (ref p))) \<and>
         (ptrIsValid p \<and> name = [] \<longrightarrow>
            GetOrCreate ncs p name parentN = Inr (Inl (EmptyNameError (ref p)), ncs)) \<and>
         (ptrIsValid p \<and> name \<noteq> [] \<and> nodes ncs (ref p) = Some e \<and>
          parent (heap ncs ! core e) \<noteq> None \<longrightarrow>
            GetOrCreate ncs p name parentN =
              Inr (Inr (nodeStandard (core e)),
                   ncs\<lparr>nodes := (nodes ncs)(ref p \<mapsto> e\<lparr>refCount := refCount e + 1\<rparr>)\<rparr>)) \<and>
         Move ncs zeroRef parentN newName = Inr (None, ncs) \<and>
         (r \<noteq> zeroRef \<and> \<not> refIsValid r \<longrightarrow>
            Move ncs r parentN newName = Inl (InvalidBlockRefError r)) \<and>
         (r \<noteq> zeroRef \<and> refIsValid r \<and> newName = [] \<longrightarrow>
            Move ncs r parentN newName = Inr (Some (EmptyNameError r), ncs)) \<and>
         (r \<noteq> zeroRef \<and> refIsValid r \<and> newName \<noteq> [] \<and> nodes ncs r = None \<longrightarrow>
            Move ncs r parentN newName = Inr (None, ncs))"
proof (intro conjI impI)
  assume h: "ptrIsValid p \<and> name \<noteq> [] \<and> parentN \<noteq> None \<and> parentN \<noteq> Some nilNodeStandard \<and>
          nodes ncs (ref p) = None"
  from GetOrCreate_new_fails [OF assms, of p name] h obtain r' where
    "GetOrCreate_new ncs p name parentN = Inr (Inl (ParentNodeNotFoundError r'), ncs)" by blast
  with h show "\<exists>r'. GetOrCreate ncs p name parentN =
                     Inr (Inl (ParentNodeNotFoundError r'), ncs)"
    by (simp add: GetOrCreate_def)
next
  let ?d = "ncs\<lparr>nodes := (nodes ncs)(ref p := None)\<rparr>"
  assume h: "ptrIsValid p \<and> name \<noteq> [] \<and> parentN \<noteq> None \<and> parentN \<noteq> Some nilNodeStandard \<and>
          nodes ncs (ref p) = Some e \<and> parent (heap ncs ! core e) = None"
  from assms parentResolves_after_delete have "\<not> parentResolves ?d parentN" by blast
  from GetOrCreate_new_fails [OF this, of p name] h obtain r' where
    "GetOrCreate_new ?d p name parentN = Inr (Inl (ParentNodeNotFoundError r'), ?d)" by blast
  with h show "\<exists>r'. GetOrCreate ncs p name parentN =
                     Inr (Inl (ParentNodeNotFoundError r'), ?d)"
    by (auto simp add: GetOrCreate_def)
next
  assume h: "r \<noteq> zeroRef \<and> refIsValid r \<and> newName \<noteq> [] \<and> nodes ncs r \<noteq> None \<and>
          parentN \<noteq> Some nilNodeStandard"
  with newChildForParentLocked_fails [OF assms] obtain r' where
    "newChildForParentLocked ncs parentN = Inr (Inl (ParentNodeNotFoundError r'))" by blast
  with h show "\<exists>r'. Move ncs r parentN newName = Inr (Some (ParentNodeNotFoundError r'), ncs)"
    by (auto simp add: Move_def)
next
  assume "ptrIsValid p \<and> name \<noteq> [] \<and>
          (nodes ncs (ref p) = None \<or>
           (nodes ncs (ref p) = Some e \<and> parent (heap ncs ! core e) = None))"
  then show "GetOrCreate ncs p name (Some nilNodeStandard) = Inl NilDereference"
    by (auto simp add: GetOrCreate_def GetOrCreate_new_nil)
next
  assume "r \<noteq> zeroRef \<and> refIsValid r \<and> newName \<noteq> [] \<and> nodes ncs r \<noteq> None"
  then show "Move ncs r (Some nilNodeStandard) newName = Inl NilDereference"
    by (auto simp add: Move_def newChildForParentLocked_nil)
next
  assume "\<not> ptrIsValid p"
  then show "GetOrCreate ncs p name parentN = Inl (InvalidBlockRefError (ref p))"
    by (simp add: GetOrCreate_def)
next
  assume "ptrIsValid p \<and> name = []"
  then show "GetOrCreate ncs p name parentN = Inr (Inl (EmptyNameError (ref p)), ncs)"
    by (simp add: GetOrCreate_def)
next
  assume "ptrIsValid p \<and> name \<noteq> [] \<and> nodes ncs (ref p) = Some e \<and>
          parent (heap ncs ! core e) \<noteq> None"
  then show "GetOrCreate ncs p name parentN =
              Inr (Inr (nodeStandard (core e)),
                   ncs\<lparr>nodes := (nodes ncs)(ref p \<mapsto> e\<lparr>refCount := refCount e + 1\<rparr>)\<rparr>)"
    by (auto simp add: GetOrCreate_def makeNodeStandardForEntry_def makeNodeStandard_def)
next
  show "Move ncs zeroRef parentN newName = Inr (None, ncs)"
    by (simp add: Move_def)
next
  assume "r \<noteq> zeroRef \<and> \<not> refIsValid r"
  then show "Move ncs r parentN newName = Inl (InvalidBlockRefError r)"
    by (simp add: Move_def)
next
  assume "r \<noteq> zeroRef \<and> refIsValid r \<and> newName = []"
  then show "Move ncs r parentN newName = Inr (Some (EmptyNameError r), ncs)"
    by (simp add: Move_def)
next
  assume "r \<noteq> zeroRef \<and> refIsValid r \<and> newName \<noteq> [] \<and> nodes ncs r = None"
  then show "Move ncs r parentN newName = Inr (None, ncs)"
    by (simp add: Move_def)
qed

theorem parent_mismatch_rejected_witness:
  "\<not> parentResolves exUnlinked (Some otherNode) \<and>
   ptrIsValid (exPtr 4) \<and> ptrIsValid (exPtr 3) \<and> ''d'' \<noteq> [] \<and> Some otherNode \<noteq> None \<and>
   Some otherNode \<noteq> Some nilNodeStandard \<and>
   nodes exUnlinked (ref (exPtr 4)) = None \<and>
   GetOrCreate exUnlinked (exPtr 4) ''d'' (Some otherNode) =
     Inr (Inl (ParentNodeNotFoundError zeroRef), exUnlinked) \<and>
   nodes exUnlinked (ref (exPtr 3)) = Some \<lparr>core = 2, refCount = 1\<rparr> \<and>
   parent (heap exUnlinked ! 2) = None \<and>
   GetOrCreate exUnlinked (exPtr 3) ''d'' (Some otherNode) =
     Inr (Inl (ParentNodeNotFoundError zeroRef),
          exUnlinked\<lparr>nodes := (nodes exUnlinked)(ref (exPtr 3) := None)\<rparr>) \<and>
   exRef 2 \<noteq> zeroRef \<and> refIsValid (exRef 2) \<and> nodes exUnlinked (exRef 2) \<noteq> None \<and>
   Move exUnlinked (exRef 2) (Some otherNode) ''d'' =
     Inr (Some (ParentNodeNotFoundError zeroRef), exUnlinked)"
proof -
  have n: "\<not> parentResolves exUnlinked (Some otherNode)"
    by (simp add: parentResolves_def)
  have g: "newChildForParentLocked exUnlinked (Some otherNode) =
             Inr (Inl (ParentNodeNotFoundError zeroRef))"
    "newChildForParentLocked (exUnlinked\<lparr>nodes := (nodes exUnlinked)(ref (exPtr 3) := None)\<rparr>)
       (Some otherNode) = Inr (Inl (ParentNodeNotFoundError zeroRef))"
    by (simp_all add: newChildForParentLocked_def asNodeStandard_def)
  have h: "ptrIsValid (exPtr 4)" "ptrIsValid (exPtr 3)" "nodes exUnlinked (ref (exPtr 4)) = None"
    "nodes exUnlinked (ref (exPtr 3)) = Some \<lparr>core = 2, refCount = 1\<rparr>"
    "parent (heap exUnlinked ! 2) = None"
    "exRef 2 \<noteq> zeroRef" "refIsValid (exRef 2)" "nodes exUnlinked (exRef 2) \<noteq> None"
    by (simp_all add: ex_defs exrun_defs eval_nat_numeral)
  from parent_mismatch_rejected [OF n, of "exPtr 4" "''d''" "\<lparr>core = 2, refCount = 1\<rparr>" "exRef 2" "''d''"]
    parent_mismatch_rejected [OF n, of "exPtr 3" "''d''" "\<lparr>core = 2, refCount = 1\<rparr>" "exRef 2" "''d''"]
    n g h
  show ?thesis
    by (auto simp add: GetOrCreate_def GetOrCreate_new_def Move_def)
qed

subsection \<open>Resurrection\<close>

text \<open>
  C5, as stated, fails when the parent does not pass the validation, which is run on the
  index after the eviction. A handle to the stale node itself resolves before the call, but
  not once its entry is gone; a foreign handle never resolves. In both cases the stale entry
  is evicted, the error is returned and no core is created. A parent handle that holds a
  nil pointer makes the validation panic.
\<close>

theorem GetOrCreate_stale_parent_rejected:
  "nodes exUnlinked (exRef 3) = Some \<lparr>core = 2, refCount = 1\<rparr> \<and>
   parent (heap exUnlinked ! 2) = None \<and>
   parentResolves exUnlinked (Some (nodeStandard 2)) \<and>
   GetOrCreate exUnlinked (exPtr 3) ''b'' (Some (nodeStandard 2)) =
     Inr (Inl (ParentNodeNotFoundError (exRef 3)),
          exUnlinked\<lparr>nodes := (nodes exUnlinked)(exRef 3 := None)\<rparr>) \<and>
   GetOrCreate exUnlinked (exPtr 3) ''b'' (Some otherNode) =
     Inr (Inl (ParentNodeNotFoundError zeroRef),
          exUnlinked\<lparr>nodes := (nodes exUnlinked)(exRef 3 := None)\<rparr>) \<and>
   heap (exUnlinked\<lparr>nodes := (nodes exUnlinked)(exRef 3 := None)\<rparr>) = heap exUnlinked \<and>
   GetOrCreate exUnlinked (exPtr 3) ''b'' (Some nilNodeStandard) = Inl NilDereference \<and>
   GetOrCreate exUnlinked (exPtr 3) [] (Some (nodeStandard 1)) =
     Inr (Inl (EmptyNameError (exRef 3)), exUnlinked)"
  by (simp add: ex_defs exrun_defs op_defs parentResolves_def eval_nat_numeral)

text \<open>
  C5, amended: GetOrCreate is called with a valid pointer, a non-empty name and a parent
  handle, and the index holds under the pointer's reference an entry whose core has no
  parent. The stale entry is evicted, and the parent is validated on the index without it.
  When the parent resolves there (as it does when it resolves before the call to an entry
  of a core other than the stale one), a core that did not exist before is created with
  the pointer, the name and the parent, the index holds under the identity an entry for it
  with count 1, and a handle to it is returned. When the parent does not resolve there, the
  parent-not-found error is returned, the stale entry is gone and nothing else has changed.
  When the parent handle holds a nil pointer the call panics. In no case is a handle to the
  stale core returned.
\<close>

theorem GetOrCreate_resurrects:
  assumes "ptrIsValid p" and "name \<noteq> []"
    and "nodes ncs (ref p) = Some stale"
    and "parent (heap ncs ! core stale) = None"
    and "core stale < length (heap ncs)"
  shows "(\<forall>ncs'. GetOrCreate ncs p name (Some n) \<noteq> Inr (Inr (nodeStandard (core stale)), ncs')) \<and>
         (parentResolves (ncs\<lparr>nodes := (nodes ncs)(ref p := None)\<rparr>) (Some (nodeStandard c)) \<longrightarrow>
            GetOrCreate ncs p name (Some (nodeStandard c)) =
              Inr (Inr (nodeStandard (length (heap ncs))),
                   ncs\<lparr>heap := heap ncs @ [newNodeCore p name (Some c)],
                       nodes := (nodes ncs)(ref p \<mapsto>
                                  \<lparr>core = length (heap ncs), refCount = 1\<rparr>)\<rparr>)) \<and>
         (parentResolves ncs (Some (nodeStandard c)) \<and> c \<noteq> core stale \<longrightarrow>
            parentResolves (ncs\<lparr>nodes := (nodes ncs)(ref p := None)\<rparr>) (Some (nodeStandard c))) \<and>
         (n \<noteq> nilNodeStandard \<and>
          \<not> parentResolves (ncs\<lparr>nodes := (nodes ncs)(ref p := None)\<rparr>) (Some n) \<longrightarrow>
            (\<exists>r'. GetOrCreate ncs p name (Some n) =
                     Inr (Inl (ParentNodeNotFoundError r'),
                          ncs\<lparr>nodes := (nodes ncs)(ref p := None)\<rparr>))) \<and>
         (coreRef ncs (core stale) = ref p \<longrightarrow>
            \<not> parentResolves (ncs\<lparr>nodes := (nodes ncs)(ref p := None)\<rparr>)
                (Some (nodeStandard (core stale)))) \<and>
         GetOrCreate ncs p name (Some nilNodeStandard) = Inl NilDereference"
proof (intro conjI impI allI)
  let ?d = "ncs\<lparr>nodes := (nodes ncs)(ref p := None)\<rparr>"
  have g: "\<And>m. GetOrCreate ncs p name (Some m) = GetOrCreate_new ?d p name (Some m)"
    using assms by (simp add: GetOrCreate_def)
  {
    fix ncs'
    show "GetOrCreate ncs p name (Some n) \<noteq> Inr (Inr (nodeStandard (core stale)), ncs')"
      using assms(5)
      by (auto simp add: g GetOrCreate_new_def GetOrCreate_insert_def
          makeNodeStandardForEntry_def makeNodeStandard_def Let_def split: sum.splits)
  }
  {
    assume "parentResolves ?d (Some (nodeStandard c))"
    from GetOrCreate_new_creates [OF this, of p name]
    show "GetOrCreate ncs p name (Some (nodeStandard c)) =
              Inr (Inr (nodeStandard (length (heap ncs))),
                   ncs\<lparr>heap := heap ncs @ [newNodeCore p name (Some c)],
                       nodes := (nodes ncs)(ref p \<mapsto>
                                  \<lparr>core = length (heap ncs), refCount = 1\<rparr>)\<rparr>)"
      by (simp add: g)
  }
  {
    assume h: "parentResolves ncs (Some (nodeStandard c)) \<and> c \<noteq> core stale"
    then have "coreRef ncs c \<noteq> ref p"
      using assms(3) by (auto simp add: parentResolves_def split: option.splits)
    with h show "parentResolves ?d (Some (nodeStandard c))"
      by (auto simp add: parentResolves_def coreRef_def split: option.splits)
  }
  {
    assume h: "n \<noteq> nilNodeStandard \<and> \<not> parentResolves ?d (Some n)"
    then have "\<exists>r'. GetOrCreate_new ?d p name (Some n) =
                     Inr (Inl (ParentNodeNotFoundError r'), ?d)"
      by (intro GetOrCreate_new_fails) simp_all
    then show "\<exists>r'. GetOrCreate ncs p name (Some n) =
                     Inr (Inl (ParentNodeNotFoundError r'), ?d)"
      by (simp add: g)
  }
  {
    assume "coreRef ncs (core stale) = ref p"
    then show "\<not> parentResolves ?d (Some (nodeStandard (core stale)))"
      by (simp add: parentResolves_def coreRef_def)
  }
  show "GetOrCreate ncs p name (Some nilNodeStandard) = Inl NilDereference"
    by (simp add: g GetOrCreate_new_nil)
qed

theorem GetOrCreate_resurrects_witness:
  "ptrIsValid (exPtr 3) \<and> ''b'' \<noteq> [] \<and>
   nodes exUnlinked (ref (exPtr 3)) = Some \<lparr>core = 2, refCount = 1\<rparr> \<and>
   parent (heap exUnlinked ! 2) = None \<and> (2::nat) < length (heap exUnlinked) \<and>
   parentResolves exUnlinked (Some (nodeStandard 1)) \<and>
   parentResolves (exUnlinked\<lparr>nodes := (nodes exUnlinked)(exRef 3 := None)\<rparr>)
     (Some (nodeStandard 1)) \<and>
   GetOrCreate exUnlinked (exPtr 3) ''b'' (Some (nodeStandard 1)) =
     Inr (Inr (nodeStandard 3),
          exUnlinked\<lparr>heap := heap exUnlinked @ [newNodeCore (exPtr 3) ''b'' (Some 1)],
                     nodes := (nodes exUnlinked)(exRef 3 \<mapsto> \<lparr>core = 3, refCount = 1\<rparr>)\<rparr>) \<and>
   \<not> parentResolves (exUnlinked\<lparr>nodes := (nodes exUnlinked)(exRef 3 := None)\<rparr>)
       (Some (nodeStandard 2))"
proof -
  have h: "ptrIsValid (exPtr 3)" "''b'' \<noteq> []"
    "nodes exUnlinked (ref (exPtr 3)) = Some \<lparr>core = 2, refCount = 1\<rparr>"
    "parent (heap exUnlinked ! core \<lparr>core = 2, refCount = 1\<rparr>) = None"
    "core \<lparr>core = 2, refCount = 1\<rparr> < length (heap exUnlinked)"
    by (simp_all add: ex_defs exrun_defs eval_nat_numeral)
  have r: "parentResolves exUnlinked (Some (nodeStandard 1))"
    by (simp add: ex_defs exrun_defs parentResolves_def)
  have l: "length (heap exUnlinked) = 3" "ref (exPtr 3) = exRef 3"
    "coreRef exUnlinked 2 = exRef 3"
    by (simp_all add: ex_defs exrun_defs eval_nat_numeral)
  from GetOrCreate_resurrects [OF h, of "nodeStandard 1" 1] h r l
  show ?thesis by simp
qed

subsection \<open>UpdatePointer rekeys\<close>

text \<open>
  C6, as stated, fails when the new pointer derives the identity the entry already has, as a
  rewritten pointer for the same object does: the entry is deleted and put back under the
  same key, so Get on the old identity returns a handle, not none.
\<close>

theorem UpdatePointer_same_identity_keeps_key:
  "nodes exChain (exRef 3) = Some \<lparr>core = 2, refCount = 1\<rparr> \<and>
   BlockPointer (pathNode (heap exChain ! 2)) = exPtr 3 \<and>
   path (cachedPath (heap exChain ! 2)) = [] \<and>
   (exPtr 3)\<lparr>KeyGen := 2\<rparr> \<noteq> exPtr 3 \<and>
   ref ((exPtr 3)\<lparr>KeyGen := 2\<rparr>) = exRef 3 \<and>
   \<not> isl (UpdatePointer exChain (exRef 3) ((exPtr 3)\<lparr>KeyGen := 2\<rparr>)) \<and>
   BlockPointer (pathNode (heap (projr (UpdatePointer exChain (exRef 3)
       ((exPtr 3)\<lparr>KeyGen := 2\<rparr>))) ! 2)) = (exPtr 3)\<lparr>KeyGen := 2\<rparr> \<and>
   \<not> isl (Get (projr (UpdatePointer exChain (exRef 3) ((exPtr 3)\<lparr>KeyGen := 2\<rparr>))) (exRef 3)) \<and>
   fst (projr (Get (projr (UpdatePointer exChain (exRef 3) ((exPtr 3)\<lparr>KeyGen := 2\<rparr>))) (exRef 3)))
     = Some (nodeStandard 2)"
  by (simp add: ex_defs UpdatePointer_def Get_def makeNodeStandardForEntry_def
      makeNodeStandard_def eval_nat_numeral)

text \<open>
  C6, amended: an entry exists under the valid identity I1, its core has an empty cached
  path, P2 is valid and derives an identity I2 other than I1. Then UpdatePointer(I1, P2)
  returns; a handle obtained before the call points to the same core, which now carries P2
  and is otherwise as before; Get(I1) returns none and leaves the state as it is; and
  Get(I2) returns a handle to that core.
\<close>

theorem UpdatePointer_rekeys:
  assumes "refIsValid i1" and "ptrIsValid p2"
    and "nodes ncs i1 = Some entry" and "core entry < length (heap ncs)"
    and "path (cachedPath (heap ncs ! core entry)) = []"
    and "ref p2 \<noteq> i1"
  shows "\<exists>ncs' ncs''.
           UpdatePointer ncs i1 p2 = Inr ncs' \<and>
           heap ncs' ! core entry =
             (heap ncs ! core entry)\<lparr>pathNode :=
                (pathNode (heap ncs ! core entry))\<lparr>BlockPointer := p2\<rparr>\<rparr> \<and>
           BlockPointer (pathNode (heap ncs' ! core entry)) = p2 \<and>
           Get ncs' i1 = Inr (None, ncs') \<and>
           Get ncs' (ref p2) = Inr (Some (nodeStandard (core entry)), ncs'')"
proof -
  let ?ncs' = "ncs\<lparr>heap := (heap ncs)[core entry :=
                   (heap ncs ! core entry)\<lparr>pathNode :=
                      (pathNode (heap ncs ! core entry))\<lparr>BlockPointer := p2\<rparr>\<rparr>],
                 nodes := ((nodes ncs)(i1 := None))(ref p2 \<mapsto> entry)\<rparr>"
  have z: "i1 \<noteq> zeroRef" "ref p2 \<noteq> zeroRef" "refIsValid (ref p2)"
    using assms(1,2) by (auto simp add: refIsValid_def ptrIsValid_def zeroRef_def ref_def)
  have u: "UpdatePointer ncs i1 p2 = Inr ?ncs'"
    using assms z by (simp add: UpdatePointer_def)
  have h: "heap ?ncs' ! core entry =
             (heap ncs ! core entry)\<lparr>pathNode :=
                (pathNode (heap ncs ! core entry))\<lparr>BlockPointer := p2\<rparr>\<rparr>"
    using assms(4) by simp
  have g1: "Get ?ncs' i1 = Inr (None, ?ncs')"
    using assms z by (simp add: Get_def)
  have b: "BlockPointer (pathNode (heap ?ncs' ! core entry)) = p2"
    using assms(4) by simp
  have "Get ?ncs' (ref p2) =
          Inr (Some (nodeStandard (core entry)),
               ?ncs'\<lparr>nodes := (nodes ?ncs')(ref p2 \<mapsto> entry\<lparr>refCount := refCount entry + 1\<rparr>)\<rparr>)"
    using z by (simp add: Get_def makeNodeStandardForEntry_def makeNodeStandard_def)
  with u h b g1 show ?thesis by blast
qed

theorem UpdatePointer_rekeys_witness:
  "refIsValid (exRef 3) \<and> ptrIsValid (exPtr 5) \<and>
   nodes exChain (exRef 3) = Some \<lparr>core = 2, refCount = 1\<rparr> \<and>
   (2::nat) < length (heap exChain) \<and>
   path (cachedPath (heap exChain ! 2)) = [] \<and>
   ref (exPtr 5) \<noteq> exRef 3 \<and>
   \<not> isl (UpdatePointer exChain (exRef 3) (exPtr 5)) \<and>
   BlockPointer (pathNode (heap (projr (UpdatePointer exChain (exRef 3) (exPtr 5))) ! 2)) = exPtr 5 \<and>
   Get (projr (UpdatePointer exChain (exRef 3) (exPtr 5))) (exRef 3) =
     Inr (None, projr (UpdatePointer exChain (exRef 3) (exPtr 5))) \<and>
   fst (projr (Get (projr (UpdatePointer exChain (exRef 3) (exPtr 5))) (exRef 5))) =
     Some (nodeStandard 2)"
proof -
  have h: "refIsValid (exRef 3)" "ptrIsValid (exPtr 5)"
    "nodes exChain (exRef 3) = Some \<lparr>core = 2, refCount = 1\<rparr>"
    "core \<lparr>core = 2, refCount = 1\<rparr> < length (heap exChain)"
    "path (cachedPath (heap exChain ! core \<lparr>core = 2, refCount = 1\<rparr>)) = []"
    "ref (exPtr 5) \<noteq> exRef 3"
    by (simp_all add: ex_defs eval_nat_numeral)
  have e: "ref (exPtr 5) = exRef 5" by (simp add: ex_defs)
  from UpdatePointer_rekeys [OF h] obtain ncs' ncs'' where
    "UpdatePointer exChain (exRef 3) (exPtr 5) = Inr ncs'"
    "BlockPointer (pathNode (heap ncs' ! 2)) = exPtr 5"
    "Get ncs' (exRef 3) = Inr (None, ncs')"
    "Get ncs' (exRef 5) = Inr (Some (nodeStandard 2), ncs'')"
    using e by auto
  with h show ?thesis by simp
qed

subsection \<open>Reference counts\<close>

lemma count_list_remove1:
  "count_list (remove1 c hs) d =
     (if c = d \<and> c \<in> set hs then count_list hs d - 1 else count_list hs d)"
  by (induction hs) auto

lemma count_list_pos_mem: "0 < count_list hs d \<Longrightarrow> d \<in> set hs"
  by (induction hs) (auto split: if_splits)

lemma countInv_core_mem:
  "countInv i (ncs, hs) \<Longrightarrow> nodes ncs i = Some e \<Longrightarrow>
   core e \<in> set hs \<and> core e < length (heap ncs) \<and> coreRef ncs (core e) = i"
proof -
  assume a: "countInv i (ncs, hs)" and b: "nodes ncs i = Some e"
  then have "0 < count_list hs (core e)" by (auto simp add: countInv_def)
  then have "core e \<in> set hs" by (rule count_list_pos_mem)
  with a show ?thesis by (auto simp add: countInv_def)
qed

lemma countInv_reuse:
  assumes "countInv i (ncs, hs)" and "nodes ncs i = Some e"
  shows "countInv i (ncs\<lparr>nodes := (nodes ncs)(i \<mapsto> e\<lparr>refCount := refCount e + 1\<rparr>)\<rparr>, core e # hs)"
  using assms countInv_core_mem [OF assms]
  by (auto simp add: countInv_def coreRef_def)

lemma countInv_delete:
  assumes "countInv i (ncs, hs)"
  shows "countInv i (ncs\<lparr>nodes := (nodes ncs)(i := None)\<rparr>, hs)"
  using assms by (auto simp add: countInv_def coreRef_def)

lemma GetOrCreate_new_cases:
  assumes "GetOrCreate_new ncs p name parentN = Inr (res, ncs')"
  shows "(\<exists>err. res = Inl err \<and> ncs' = ncs) \<or>
         (\<exists>parentNS. res = Inr (nodeStandard (length (heap ncs))) \<and>
            ncs' = ncs\<lparr>heap := heap ncs @ [newNodeCore p name parentNS],
                       nodes := (nodes ncs)(ref p \<mapsto>
                                  \<lparr>core = length (heap ncs), refCount = 1\<rparr>)\<rparr>)"
  using assms
  by (auto simp add: GetOrCreate_new_def GetOrCreate_insert_def makeNodeStandardForEntry_def
      makeNodeStandard_def Let_def split: option.splits sum.splits)

lemma countInv_new:
  assumes "countInv i (ncs, hs)" and "ref p = i"
    and "GetOrCreate_new ncs p name parentN = Inr (res, ncs')"
  shows "countInv i (ncs', issued (case res of Inl err \<Rightarrow> None | Inr n \<Rightarrow> Some n) @ hs)"
proof -
  from GetOrCreate_new_cases [OF assms(3)] show ?thesis
  proof
    assume "\<exists>err. res = Inl err \<and> ncs' = ncs"
    with assms(1) show ?thesis by auto
  next
    assume "\<exists>parentNS. res = Inr (nodeStandard (length (heap ncs))) \<and>
            ncs' = ncs\<lparr>heap := heap ncs @ [newNodeCore p name parentNS],
                       nodes := (nodes ncs)(ref p \<mapsto>
                                  \<lparr>core = length (heap ncs), refCount = 1\<rparr>)\<rparr>"
    then obtain parentNS where
      n: "res = Inr (nodeStandard (length (heap ncs)))" and
      s: "ncs' = ncs\<lparr>heap := heap ncs @ [newNodeCore p name parentNS],
                      nodes := (nodes ncs)(ref p \<mapsto> \<lparr>core = length (heap ncs), refCount = 1\<rparr>)\<rparr>"
      by blast
    have old: "\<forall>c \<in> set hs. c < length (heap ncs) \<and> coreRef ncs c = i"
      using assms(1) by (simp add: countInv_def)
    then have fresh: "count_list hs (length (heap ncs)) = 0"
      by (auto simp add: count_list_0_iff)
    from old have "\<forall>c \<in> set hs. coreRef ncs' c = i"
      by (auto simp add: s coreRef_def nth_append)
    moreover have "coreRef ncs' (length (heap ncs)) = i"
      using assms(2) by (simp add: s coreRef_def newNodeCore_def)
    ultimately show ?thesis
      using n old fresh assms(2) by (auto simp add: countInv_def s)
  qed
qed

lemma countInv_GetOrCreate:
  assumes "countInv i (ncs, hs)" and "ref p = i"
    and "GetOrCreate ncs p name parentN = Inr (res, ncs')"
  shows "countInv i (ncs', issued (case res of Inl err \<Rightarrow> None | Inr n \<Rightarrow> Some n) @ hs)"
proof (cases "name = []")
  case True
  with assms show ?thesis by (auto simp add: GetOrCreate_def split: if_splits)
next
  case False
  from assms(3) have v: "ptrIsValid p" by (auto simp add: GetOrCreate_def split: if_splits)
  show ?thesis
  proof (cases "nodes ncs (ref p)")
    case None
    with assms(3) v False have "GetOrCreate_new ncs p name parentN = Inr (res, ncs')"
      by (simp add: GetOrCreate_def)
    from countInv_new [OF assms(1,2) this] show ?thesis .
  next
    case (Some e)
    show ?thesis
    proof (cases "parentN \<noteq> None \<and> parent (heap ncs ! core e) = None")
      case True
      with assms(3) v False Some
      have "GetOrCreate_new (ncs\<lparr>nodes := (nodes ncs)(ref p := None)\<rparr>) p name parentN =
              Inr (res, ncs')"
        by (simp add: GetOrCreate_def)
      moreover have "countInv i (ncs\<lparr>nodes := (nodes ncs)(ref p := None)\<rparr>, hs)"
        using countInv_delete [OF assms(1)] assms(2) by simp
      ultimately show ?thesis using countInv_new assms(2) by blast
    next
      case f: False
      with assms(3) v False Some
      have "res = Inr (nodeStandard (core e))"
        and "ncs' = ncs\<lparr>nodes := (nodes ncs)(ref p \<mapsto> e\<lparr>refCount := refCount e + 1\<rparr>)\<rparr>"
        by (auto simp add: GetOrCreate_def makeNodeStandardForEntry_def makeNodeStandard_def)
      with countInv_reuse [OF assms(1), of e] Some assms(2) show ?thesis by simp
    qed
  qed
qed

lemma countInv_Get:
  assumes "countInv i (ncs, hs)" and "Get ncs i = Inr (n, ncs')"
  shows "countInv i (ncs', issued n @ hs)"
proof (cases "nodes ncs i")
  case None
  with assms show ?thesis by (auto simp add: Get_def split: if_splits)
next
  case (Some e)
  show ?thesis
  proof (cases "i = zeroRef")
    case True
    with assms show ?thesis by (auto simp add: Get_def)
  next
    case False
    with assms(2) Some have "n = Some (nodeStandard (core e))"
      and "ncs' = ncs\<lparr>nodes := (nodes ncs)(i \<mapsto> e\<lparr>refCount := refCount e + 1\<rparr>)\<rparr>"
      by (auto simp add: Get_def makeNodeStandardForEntry_def makeNodeStandard_def
          split: if_splits)
    with countInv_reuse [OF assms(1) Some] show ?thesis by simp
  qed
qed

lemma countInv_forget:
  assumes "countInv i (ncs, hs)" and "c \<in> set hs"
  shows "countInv i (forget ncs c, remove1 c hs)"
proof -
  from assms have r: "coreRef ncs c = i" by (auto simp add: countInv_def)
  have sub: "\<forall>d \<in> set (remove1 c hs). d < length (heap ncs) \<and> coreRef ncs d = i"
    using assms(1) notin_set_remove1 [of _ hs c] by (auto simp add: countInv_def)
  show ?thesis
  proof (cases "nodes ncs i")
    case None
    with r sub show ?thesis
      by (auto simp add: forget_def forgetLocked_def countInv_def)
  next
    case (Some e)
    from assms(1) Some have k: "refCount e = int (count_list hs (core e))" "1 \<le> refCount e"
      by (auto simp add: countInv_def)
    show ?thesis
    proof (cases "core e = c")
      case False
      with r Some have "forget ncs c = ncs" by (simp add: forget_def forgetLocked_def)
      with sub Some k False show ?thesis
        by (auto simp add: countInv_def count_list_remove1)
    next
      case True
      show ?thesis
      proof (cases "refCount e - 1 \<le> 0")
        case t: True
        with r Some True have "forget ncs c = ncs\<lparr>nodes := (nodes ncs)(i := None)\<rparr>"
          by (simp add: forget_def forgetLocked_def)
        with sub show ?thesis by (auto simp add: countInv_def coreRef_def)
      next
        case f: False
        with r Some True
        have "forget ncs c = ncs\<lparr>nodes := (nodes ncs)(i \<mapsto> e\<lparr>refCount := refCount e - 1\<rparr>)\<rparr>"
          by (simp add: forget_def forgetLocked_def)
        with sub k f True assms(2) show ?thesis
          by (auto simp add: countInv_def coreRef_def count_list_remove1)
      qed
    qed
  qed
qed

lemma countInv_step:
  assumes "countInv i st" and "onIdentity i x" and "handleStep st x = Some st'"
  shows "countInv i st'"
proof -
  obtain ncs hs where st: "st = (ncs, hs)" by (cases st)
  show ?thesis
  proof (cases x)
    case (OpGetOrCreate p name parentN)
    with assms(3) st obtain res ncs' where
      g: "GetOrCreate ncs p name parentN = Inr (res, ncs')" and
      s: "st' = (ncs', issued (case res of Inl err \<Rightarrow> None | Inr n \<Rightarrow> Some n) @ hs)"
      by (auto split: sum.splits prod.splits)
    from assms(2) OpGetOrCreate have "ref p = i" by simp
    from countInv_GetOrCreate [OF _ this g] assms(1) st s show ?thesis by simp
  next
    case (OpGet r)
    with assms(2) have ri: "r = i" by simp
    with OpGet assms(3) st obtain n ncs' where
      g: "Get ncs i = Inr (n, ncs')" and s: "st' = (ncs', issued n @ hs)"
      by (auto split: sum.splits prod.splits)
    from countInv_Get [OF _ g] assms(1) st s show ?thesis by simp
  next
    case (OpForget c)
    with assms(3) st have "c \<in> set hs" and "st' = (forget ncs c, remove1 c hs)"
      by (auto split: if_splits)
    with countInv_forget assms(1) st show ?thesis by simp
  next
    case (OpUpdatePointer oldRef newPtr)
    with assms(2) show ?thesis by simp
  next
    case (OpMove r newParent newName)
    with assms(2) show ?thesis by simp
  next
    case (OpUnlink r oldPath)
    with assms(2) show ?thesis by simp
  qed
qed

lemma countInv_run:
  "countInv i st \<Longrightarrow> list_all (onIdentity i) xs \<Longrightarrow> runHandles st xs = Some st' \<Longrightarrow>
   countInv i st'"
proof (induction xs arbitrary: st)
  case Nil
  then show ?case by simp
next
  case (Cons x xs)
  from Cons.prems(3) obtain st1 where
    s: "handleStep st x = Some st1" and r: "runHandles st1 xs = Some st'"
    by (auto split: option.splits)
  from Cons.prems(2) have o: "onIdentity i x" and l: "list_all (onIdentity i) xs" by simp_all
  from countInv_step [OF Cons.prems(1) o s] have "countInv i st1" .
  from Cons.IH [OF this l r] show ?case .
qed

lemma countInv_release:
  assumes "countInv i (ncs, hs)" and "c \<in> set hs"
  shows "forget ncs c =
     (case nodes ncs i of
        None \<Rightarrow> ncs
      | Some e \<Rightarrow>
          if core e \<noteq> c then ncs
          else if count_list hs c = 1 then ncs\<lparr>nodes := (nodes ncs)(i := None)\<rparr>
          else ncs\<lparr>nodes := (nodes ncs)(i \<mapsto> e\<lparr>refCount := refCount e - 1\<rparr>)\<rparr>)"
proof -
  from assms have r: "coreRef ncs c = i" by (auto simp add: countInv_def)
  show ?thesis
  proof (cases "nodes ncs i")
    case None
    with r show ?thesis by (simp add: forget_def forgetLocked_def)
  next
    case (Some e)
    from assms(1) Some have "refCount e = int (count_list hs (core e))" "1 \<le> refCount e"
      by (auto simp add: countInv_def)
    then have "core e = c \<Longrightarrow> (refCount e - 1 \<le> 0) = (count_list hs c = 1)" by auto
    with r Some show ?thesis by (auto simp add: forget_def forgetLocked_def)
  qed
qed

lemma count_list_all_same: "\<forall>c \<in> set hs. c = d \<Longrightarrow> count_list hs d = length hs"
  by (induction hs) auto

lemma plainInv_step:
  assumes "plainInv i st" and "onIdentity i x" and "\<not> resurrects (fst st) x"
    and "handleStep st x = Some st'"
  shows "plainInv i st'"
proof -
  obtain ncs hs where st: "st = (ncs, hs)" by (cases st)
  from assms(1) have ci: "countInv i st" by (simp add: plainInv_def)
  from countInv_step [OF ci assms(2,4)] have ci': "countInv i st'" .
  from assms(1) st have pl: "nodes ncs i = None \<longrightarrow> hs = []"
    "\<forall>e. nodes ncs i = Some e \<longrightarrow> (\<forall>c \<in> set hs. c = core e)"
    by (auto simp add: plainInv_def)
  have "(nodes (fst st') i = None \<longrightarrow> snd st' = []) \<and>
        (\<forall>e. nodes (fst st') i = Some e \<longrightarrow> (\<forall>c \<in> set (snd st'). c = core e))"
  proof (cases x)
    case (OpGetOrCreate p name parentN)
    with assms(4) st obtain res ncs' where
      g: "GetOrCreate ncs p name parentN = Inr (res, ncs')" and
      s: "st' = (ncs', issued (case res of Inl err \<Rightarrow> None | Inr n \<Rightarrow> Some n) @ hs)"
      by (auto split: sum.splits prod.splits)
    from assms(2) OpGetOrCreate have rp: "ref p = i" by simp
    from g have v: "ptrIsValid p" by (auto simp add: GetOrCreate_def split: if_splits)
    show ?thesis
    proof (cases "name = []")
      case True
      with g v s pl show ?thesis by (auto simp add: GetOrCreate_def)
    next
      case False
      show ?thesis
      proof (cases "nodes ncs i")
        case None
        with g v False rp have "GetOrCreate_new ncs p name parentN = Inr (res, ncs')"
          by (simp add: GetOrCreate_def)
        from GetOrCreate_new_cases [OF this] None pl s rp show ?thesis by auto
      next
        case (Some e)
        with assms(3) st OpGetOrCreate v False rp
        have "\<not> (parentN \<noteq> None \<and> parent (heap ncs ! core e) = None)" by simp
        with g v False Some rp
        have "res = Inr (nodeStandard (core e))"
          and "ncs' = ncs\<lparr>nodes := (nodes ncs)(i \<mapsto> e\<lparr>refCount := refCount e + 1\<rparr>)\<rparr>"
          by (auto simp add: GetOrCreate_def makeNodeStandardForEntry_def makeNodeStandard_def)
        with s Some pl show ?thesis by simp
      qed
    qed
  next
    case (OpGet r)
    with assms(2) have ri: "r = i" by simp
    with OpGet assms(4) st obtain n ncs' where
      g: "Get ncs i = Inr (n, ncs')" and s: "st' = (ncs', issued n @ hs)"
      by (auto split: sum.splits prod.splits)
    show ?thesis
    proof (cases "nodes ncs i")
      case None
      with g s pl show ?thesis by (auto simp add: Get_def split: if_splits)
    next
      case (Some e)
      with g s pl show ?thesis
        by (auto simp add: Get_def makeNodeStandardForEntry_def makeNodeStandard_def
            split: if_splits)
    qed
  next
    case (OpForget c)
    with assms(4) st have c: "c \<in> set hs" and s: "st' = (forget ncs c, remove1 c hs)"
      by (auto split: if_splits)
    from c pl(1) have "nodes ncs i \<noteq> None" by auto
    then obtain e where e: "nodes ncs i = Some e" by auto
    with pl(2) have all: "\<forall>d \<in> set hs. d = core e" by simp
    from all c have ce: "core e = c" by auto
    from all ce have len: "count_list hs c = length hs" by (simp add: count_list_all_same)
    have sub: "\<forall>d \<in> set (remove1 c hs). d = core e"
      using all notin_set_remove1 [of _ hs c] by auto
    from countInv_release [OF _ c, of i ncs] ci st e ce
    have f: "forget ncs c =
       (if count_list hs c = 1 then ncs\<lparr>nodes := (nodes ncs)(i := None)\<rparr>
        else ncs\<lparr>nodes := (nodes ncs)(i \<mapsto> e\<lparr>refCount := refCount e - 1\<rparr>)\<rparr>)"
      by simp
    show ?thesis
    proof (cases "count_list hs c = 1")
      case True
      with len c have "hs = [c]" by (cases hs) auto
      with True f s show ?thesis by simp
    next
      case False
      with f s sub show ?thesis by simp
    qed
  next
    case (OpUpdatePointer oldRef newPtr)
    with assms(2) show ?thesis by simp
  next
    case (OpMove r newParent newName)
    with assms(2) show ?thesis by simp
  next
    case (OpUnlink r oldPath)
    with assms(2) show ?thesis by simp
  qed
  with ci' show ?thesis by (simp add: plainInv_def)
qed

lemma plainInv_run:
  "plainInv i st \<Longrightarrow> list_all (onIdentity i) xs \<Longrightarrow> runHandlesPlain st xs = Some st' \<Longrightarrow>
   plainInv i st'"
proof (induction xs arbitrary: st)
  case Nil
  then show ?case by simp
next
  case (Cons x xs)
  from Cons.prems(3) obtain st1 where
    n: "\<not> resurrects (fst st) x" and
    s: "handleStep st x = Some st1" and r: "runHandlesPlain st1 xs = Some st'"
    by (auto split: if_splits option.splits)
  from Cons.prems(2) have o: "onIdentity i x" and l: "list_all (onIdentity i) xs" by simp_all
  from plainInv_step [OF Cons.prems(1) o n s] have "plainInv i st1" .
  from Cons.IH [OF this l r] show ?case .
qed

lemma runHandlesPlain_runHandles:
  "runHandlesPlain st xs = Some st' \<Longrightarrow> runHandles st xs = Some st'"
  by (induction xs arbitrary: st) (auto split: if_splits option.splits)

text \<open>
  C7, as stated, fails when an acquisition resurrects. From the cache that holds the root,
  the identity of \<open>a\<close> is acquired with a nil parent and then with the root as its parent:
  the second call finds the entry detached, evicts it and inserts a new one. Two handles are
  outstanding, and the count of the entry is 1. When the handle to the new core is then
  released, the entry is gone although the first handle is still outstanding.
\<close>

theorem refcount_after_resurrection:
  "nodes exRoot (exRef 2) = None \<and>
   runHandles (exRoot, []) exAcquireTwice \<noteq> None \<and>
   snd (the (runHandles (exRoot, []) exAcquireTwice)) = [2, 1] \<and>
   map_option refCount (nodes (fst (the (runHandles (exRoot, []) exAcquireTwice))) (exRef 2))
     = Some 1 \<and>
   map_option core (nodes (fst (the (runHandles (exRoot, []) exAcquireTwice))) (exRef 2))
     = Some 2 \<and>
   runHandles (exRoot, []) (exAcquireTwice @ [OpForget 2]) \<noteq> None \<and>
   snd (the (runHandles (exRoot, []) (exAcquireTwice @ [OpForget 2]))) = [1] \<and>
   nodes (fst (the (runHandles (exRoot, []) (exAcquireTwice @ [OpForget 2])))) (exRef 2) = None"
  by (simp add: ex_defs exAcquireTwice_def op_defs eval_nat_numeral)

text \<open>
  C7, amended: a run of GetOrCreate and Get acquisitions of one identity and of releases
  of outstanding handles starts with the identity absent from the index. At every step of
  a run in which no GetOrCreate evicts a detached entry, the entry is present exactly when
  a handle is outstanding, its count is the number of outstanding handles, and they all
  point to its core; so it is absent after the last release and not before. At every step
  of any run, also one that resurrects, the count of an entry that is present is the number
  of outstanding handles to the entry's own core and is at least 1; a release of a handle
  to that core removes the entry when it is the only such handle and lowers the count by
  one otherwise; a release of a handle to another core, or when there is no entry, changes
  nothing; and with no handle outstanding the identity is absent.
\<close>

theorem refcount_conservation:
  assumes "nodes ncs i = None" and "list_all (onIdentity i) xs"
    and "runHandles (ncs, []) xs = Some (ncs', hs)"
  shows "(\<forall>e. nodes ncs' i = Some e \<longrightarrow>
               refCount e = int (count_list hs (core e)) \<and> 1 \<le> refCount e) \<and>
         (hs = [] \<longrightarrow> nodes ncs' i = None) \<and>
         (\<forall>c \<in> set hs. forget ncs' c =
            (case nodes ncs' i of
               None \<Rightarrow> ncs'
             | Some e \<Rightarrow>
                 if core e \<noteq> c then ncs'
                 else if count_list hs c = 1 then ncs'\<lparr>nodes := (nodes ncs')(i := None)\<rparr>
                 else ncs'\<lparr>nodes := (nodes ncs')(i \<mapsto> e\<lparr>refCount := refCount e - 1\<rparr>)\<rparr>)) \<and>
         (runHandlesPlain (ncs, []) xs \<noteq> None \<longrightarrow>
            (nodes ncs' i = None \<longleftrightarrow> hs = []) \<and>
            (\<forall>e. nodes ncs' i = Some e \<longrightarrow>
                   refCount e = int (length hs) \<and> (\<forall>c \<in> set hs. c = core e)))"
proof (intro conjI)
  from assms(1) have "countInv i (ncs, [])" by (simp add: countInv_def)
  from countInv_run [OF this assms(2,3)] have c: "countInv i (ncs', hs)" .
  then show a: "\<forall>e. nodes ncs' i = Some e \<longrightarrow>
               refCount e = int (count_list hs (core e)) \<and> 1 \<le> refCount e"
    by (auto simp add: countInv_def)
  then show "hs = [] \<longrightarrow> nodes ncs' i = None"
    by (cases "nodes ncs' i") auto
  from c show "\<forall>c \<in> set hs. forget ncs' c =
            (case nodes ncs' i of
               None \<Rightarrow> ncs'
             | Some e \<Rightarrow>
                 if core e \<noteq> c then ncs'
                 else if count_list hs c = 1 then ncs'\<lparr>nodes := (nodes ncs')(i := None)\<rparr>
                 else ncs'\<lparr>nodes := (nodes ncs')(i \<mapsto> e\<lparr>refCount := refCount e - 1\<rparr>)\<rparr>)"
    using countInv_release by blast
  show "runHandlesPlain (ncs, []) xs \<noteq> None \<longrightarrow>
            (nodes ncs' i = None \<longleftrightarrow> hs = []) \<and>
            (\<forall>e. nodes ncs' i = Some e \<longrightarrow>
                   refCount e = int (length hs) \<and> (\<forall>c \<in> set hs. c = core e))"
  proof
    assume "runHandlesPlain (ncs, []) xs \<noteq> None"
    then obtain st' where p: "runHandlesPlain (ncs, []) xs = Some st'" by auto
    from runHandlesPlain_runHandles [OF p] assms(3) have st': "st' = (ncs', hs)" by simp
    from assms(1) have "plainInv i (ncs, [])" by (simp add: plainInv_def countInv_def)
    from plainInv_run [OF this assms(2) p] st' have pl: "plainInv i (ncs', hs)" by simp
    show "(nodes ncs' i = None \<longleftrightarrow> hs = []) \<and>
            (\<forall>e. nodes ncs' i = Some e \<longrightarrow>
                   refCount e = int (length hs) \<and> (\<forall>c \<in> set hs. c = core e))"
    proof (cases "nodes ncs' i")
      case None
      with pl show ?thesis by (simp add: plainInv_def)
    next
      case (Some e)
      with pl have all: "\<forall>c \<in> set hs. c = core e" by (auto simp add: plainInv_def)
      then have "count_list hs (core e) = length hs" by (rule count_list_all_same)
      with a Some all show ?thesis by auto
    qed
  qed
qed

theorem refcount_conservation_witness:
  "nodes exRoot (exRef 2) = None \<and> list_all (onIdentity (exRef 2)) exAcquireRelease \<and>
   list_all (onIdentity (exRef 2)) (take 4 exAcquireRelease) \<and>
   runHandlesPlain (exRoot, []) (take 4 exAcquireRelease) \<noteq> None \<and>
   runHandles (exRoot, []) (take 4 exAcquireRelease) =
     Some (exChain2\<lparr>nodes := (nodes exChain2)(exRef 2 \<mapsto> \<lparr>core = 1, refCount = 2\<rparr>)\<rparr>, [1, 1]) \<and>
   nodes (exChain2\<lparr>nodes := (nodes exChain2)(exRef 2 \<mapsto> \<lparr>core = 1, refCount = 2\<rparr>)\<rparr>) (exRef 2) =
     Some \<lparr>core = 1, refCount = 2\<rparr> \<and>
   int (length [1::nat, 1]) = 2 \<and>
   forget (exChain2\<lparr>nodes := (nodes exChain2)(exRef 2 \<mapsto> \<lparr>core = 1, refCount = 2\<rparr>)\<rparr>) 1 = exChain2 \<and>
   runHandles (exRoot, []) exAcquireRelease \<noteq> None \<and>
   snd (the (runHandles (exRoot, []) exAcquireRelease)) = [] \<and>
   nodes (fst (the (runHandles (exRoot, []) exAcquireRelease))) (exRef 2) = None"
proof -
  let ?mid = "exChain2\<lparr>nodes := (nodes exChain2)(exRef 2 \<mapsto> \<lparr>core = 1, refCount = 2\<rparr>)\<rparr>"
  have h: "nodes exRoot (exRef 2) = None" "list_all (onIdentity (exRef 2)) exAcquireRelease"
    "list_all (onIdentity (exRef 2)) (take 4 exAcquireRelease)"
    by (simp_all add: ex_defs exAcquireRelease_def)
  have p: "runHandles (exRoot, []) (take 4 exAcquireRelease) = Some (?mid, [1, 1])"
    by (simp add: ex_defs exAcquireRelease_def op_defs eval_nat_numeral fun_eq_iff)
  have q: "runHandlesPlain (exRoot, []) (take 4 exAcquireRelease) \<noteq> None"
    by (simp add: ex_defs exAcquireRelease_def op_defs eval_nat_numeral)
  have f: "forget ?mid 1 = exChain2"
    by (simp add: ex_defs op_defs eval_nat_numeral fun_eq_iff)
  have m: "nodes ?mid (exRef 2) = Some \<lparr>core = 1, refCount = 2\<rparr>" by simp
  have r: "runHandles (exRoot, []) exAcquireRelease \<noteq> None"
    "snd (the (runHandles (exRoot, []) exAcquireRelease)) = []"
    by (simp_all add: ex_defs exAcquireRelease_def op_defs eval_nat_numeral)
  then have t: "runHandles (exRoot, []) exAcquireRelease =
     Some (fst (the (runHandles (exRoot, []) exAcquireRelease)), [])"
    by (cases "runHandles (exRoot, []) exAcquireRelease") auto
  have "([]::addr list) = [] \<longrightarrow>
        nodes (fst (the (runHandles (exRoot, []) exAcquireRelease))) (exRef 2) = None"
    using refcount_conservation [OF h(1,2) t] by blast
  then have w: "nodes (fst (the (runHandles (exRoot, []) exAcquireRelease))) (exRef 2) = None"
    by simp
  have "\<forall>e. nodes ?mid (exRef 2) = Some e \<longrightarrow>
           refCount e = int (count_list [1, 1] (core e)) \<and> 1 \<le> refCount e"
    using refcount_conservation [OF h(1,3) p] by blast
  have l: "int (length [1::nat, 1]) = 2" by simp
  from h p q f m r w l show ?thesis by (intro conjI)
qed

end
